theory Spec2Isabelle
  imports Main "HOL-Library.Char_ord" "HOL-Library.List_Lexorder"
begin

section \<open>Errors\<close>

text \<open>
  Exceptions are values. \<open>RangeError\<close> is what \<^verbatim>\<open>toISOString\<close> throws on an
  Invalid Date, \<open>TypeError\<close> what a method call on \<^verbatim>\<open>undefined\<close> throws,
  \<open>InvalidRepositoryFormat\<close> the \<^verbatim>\<open>Error\<close> thrown by \<^verbatim>\<open>parseRepoString\<close>.
\<close>

datatype error = RangeError | TypeError | InvalidRepositoryFormat string

text \<open>
  How a call that talks to \<^verbatim>\<open>gh\<close> ends: it returns, it throws, it ends the process
  with \<^verbatim>\<open>process.exit(n)\<close> (not an exception: no \<^verbatim>\<open>catch\<close> intercepts it), or it is
  still waiting for a response when the recorded responses are used up.
\<close>

datatype 'a outcome = Returned 'a | Thrown error | Exited nat | Pending

section \<open>The built-in Date: time values and the UTC calendar\<close>

text \<open>
  The scripts call the built-in Date; this section and the next give the meaning of the
  methods they call. A Date holds a time value: milliseconds since 1970-01-01T00:00:00Z,
  or NaN (an Invalid Date), here \<open>int option\<close> with \<open>None\<close> for NaN. \<open>TimeClip\<close>
  bounds a time value as ECMAScript does.
\<close>

definition msPerDay :: int where
  "msPerDay = 86400000"

definition TimeClip :: "int \<Rightarrow> int option" where
  "TimeClip t = (if \<bar>t\<bar> \<le> 8640000000000000 then Some t else None)"

text \<open>Number of days from 0000-03-01 to 1 March of year \<open>y\<close> (proleptic Gregorian).\<close>

definition DaysToMarch :: "int \<Rightarrow> int" where
  "DaysToMarch y = 365 * y + y div 4 - y div 100 + y div 400"

text \<open>
  \<open>MakeDay y m d\<close>: the day number (days since the epoch) of day \<open>d\<close> of month \<open>m\<close>
  (1 to 12) of year \<open>y\<close>; a \<open>d\<close> outside the month carries over, as in ECMAScript.
\<close>

definition MakeDay :: "int \<Rightarrow> int \<Rightarrow> int \<Rightarrow> int" where
  "MakeDay y m d =
     (let yr = (if m \<le> 2 then y - 1 else y);
          mp = (m + 9) mod 12
      in DaysToMarch yr + (153 * mp + 2) div 5 + d - 1 - 719468)"

text \<open>The year beginning in March that holds day \<open>z\<close> (counted from 0000-03-01).\<close>

definition MarchYear :: "int \<Rightarrow> int" where
  "MarchYear z =
     (let y0 = (400 * z) div 146097
      in if DaysToMarch (y0 + 1) \<le> z then y0 + 1
         else if DaysToMarch y0 \<le> z then y0
         else y0 - 1)"

text \<open>Year, month (1 to 12) and day of the month of a day number.\<close>

definition CivilFromDay :: "int \<Rightarrow> int \<times> int \<times> int" where
  "CivilFromDay n =
     (let z = n + 719468;
          yr = MarchYear z;
          doy = z - DaysToMarch yr;
          mp = (5 * doy + 2) div 153;
          d = doy - (153 * mp + 2) div 5 + 1;
          m = (if mp < 10 then mp + 3 else mp - 9)
      in (if m \<le> 2 then yr + 1 else yr, m, d))"

definition Day :: "int \<Rightarrow> int" where
  "Day t = t div msPerDay"

definition TimeWithinDay :: "int \<Rightarrow> int" where
  "TimeWithinDay t = t mod msPerDay"

text \<open>\<^verbatim>\<open>getUTCDay\<close>: 0 is Sunday; the epoch was a Thursday.\<close>

definition getUTCDay :: "int \<Rightarrow> int" where
  "getUTCDay t = (Day t + 4) mod 7"

definition getUTCDate :: "int \<Rightarrow> int" where
  "getUTCDate t = (case CivilFromDay (Day t) of (y, m, d) \<Rightarrow> d)"

text \<open>\<^verbatim>\<open>setUTCDate(dt)\<close>: the same year, month and time of day, with day of month \<open>dt\<close>.\<close>

definition setUTCDate :: "int \<Rightarrow> int \<Rightarrow> int option" where
  "setUTCDate t dt =
     (case CivilFromDay (Day t) of
        (y, m, d) \<Rightarrow> TimeClip (MakeDay y m dt * msPerDay + TimeWithinDay t))"

section \<open>Date strings\<close>

definition digit_char :: "nat \<Rightarrow> char" where
  "digit_char k = ''0123456789'' ! (k mod 10)"

definition digit_of :: "char \<Rightarrow> nat option" where
  "digit_of c =
     map_of [(CHR ''0'', 0), (CHR ''1'', 1), (CHR ''2'', 2), (CHR ''3'', 3), (CHR ''4'', 4),
             (CHR ''5'', 5), (CHR ''6'', 6), (CHR ''7'', 7), (CHR ''8'', 8), (CHR ''9'', 9)] c"

text \<open>\<open>pad k n\<close>: the last \<open>k\<close> decimal digits of \<open>n\<close>, zero-padded.\<close>

fun pad :: "nat \<Rightarrow> nat \<Rightarrow> string" where
  "pad 0 n = []"
| "pad (Suc k) n = pad k (n div 10) @ [digit_char n]"

text \<open>\<open>digits k s\<close> reads exactly \<open>k\<close> decimal digits from the front of \<open>s\<close>.\<close>

fun digits_acc :: "nat \<Rightarrow> nat \<Rightarrow> string \<Rightarrow> (nat \<times> string) option" where
  "digits_acc 0 acc s = Some (acc, s)"
| "digits_acc (Suc k) acc [] = None"
| "digits_acc (Suc k) acc (c # s) =
     (case digit_of c of None \<Rightarrow> None | Some v \<Rightarrow> digits_acc k (10 * acc + v) s)"

definition digits :: "nat \<Rightarrow> string \<Rightarrow> (nat \<times> string) option" where
  "digits k s = digits_acc k 0 s"

definition lit :: "char \<Rightarrow> string \<Rightarrow> string option" where
  "lit c s = (case s of [] \<Rightarrow> None | x # r \<Rightarrow> if x = c then Some r else None)"

text \<open>
  The year of an ISO string: four digits for the years 0 to 9999, otherwise a sign and
  six digits.
\<close>

definition iso_year :: "int \<Rightarrow> string" where
  "iso_year y =
     (if 0 \<le> y \<and> y \<le> 9999 then pad 4 (nat y)
      else (if y < 0 then ''-'' else ''+'') @ pad 6 (nat \<bar>y\<bar>))"

definition iso_date :: "int \<Rightarrow> string" where
  "iso_date n =
     (case CivilFromDay n of
        (y, m, d) \<Rightarrow> iso_year y @ ''-'' @ pad 2 (nat m) @ ''-'' @ pad 2 (nat d))"

definition iso_time :: "int \<Rightarrow> string" where
  "iso_time ms =
     pad 2 (nat (ms div 3600000)) @ '':'' @ pad 2 (nat (ms div 60000 mod 60)) @ '':'' @
     pad 2 (nat (ms div 1000 mod 60)) @ ''.'' @ pad 3 (nat (ms mod 1000))"

text \<open>\<^verbatim>\<open>toISOString\<close> throws a RangeError on an Invalid Date.\<close>

definition toISOString :: "int option \<Rightarrow> error + string" where
  "toISOString tv =
     (case tv of
        None \<Rightarrow> Inl RangeError
      | Some t \<Rightarrow> Inr (iso_date (Day t) @ ''T'' @ iso_time (TimeWithinDay t) @ ''Z''))"

text \<open>
  \<^verbatim>\<open>new Date(string)\<close> for the ECMAScript date-time format: a full date
  \<^verbatim>\<open>YYYY-MM-DD\<close> (or a signed six-digit year), alone (UTC midnight) or followed by
  \<^verbatim>\<open>THH:mm\<close>, \<^verbatim>\<open>THH:mm:ss\<close> or \<^verbatim>\<open>THH:mm:ss.sss\<close> and a zone \<^verbatim>\<open>Z\<close> or
  \<^verbatim>\<open>+HH:mm\<close> / \<^verbatim>\<open>-HH:mm\<close>. Any other string gives an Invalid Date here; a date-time
  without a zone (local time) and the engines' fallback formats are outside this model.
\<close>

definition parse_year :: "string \<Rightarrow> (int \<times> string) option" where
  "parse_year s =
     (case s of
        [] \<Rightarrow> None
      | c # r \<Rightarrow>
          if c = CHR ''+'' then map_option (\<lambda>(v, r'). (int v, r')) (digits 6 r)
          else if c = CHR ''-'' then map_option (\<lambda>(v, r'). (- int v, r')) (digits 6 r)
          else map_option (\<lambda>(v, r'). (int v, r')) (digits 4 s))"

definition parse_ymd :: "string \<Rightarrow> (int \<times> string) option" where
  "parse_ymd s =
     (case parse_year s of None \<Rightarrow> None | Some (y, s1) \<Rightarrow>
     (case lit CHR ''-'' s1 of None \<Rightarrow> None | Some s2 \<Rightarrow>
     (case digits 2 s2 of None \<Rightarrow> None | Some (m, s3) \<Rightarrow>
     (case lit CHR ''-'' s3 of None \<Rightarrow> None | Some s4 \<Rightarrow>
     (case digits 2 s4 of None \<Rightarrow> None | Some (d, s5) \<Rightarrow>
        if 1 \<le> m \<and> m \<le> 12 \<and> 1 \<le> d \<and> d \<le> 31
        then Some (MakeDay y (int m) (int d), s5) else None)))))"

definition parse_seconds :: "string \<Rightarrow> (int \<times> string) option" where
  "parse_seconds s =
     (case lit CHR '':'' s of
        None \<Rightarrow> Some (0, s)
      | Some s1 \<Rightarrow>
          (case digits 2 s1 of None \<Rightarrow> None | Some (sec, s2) \<Rightarrow>
           if 59 < sec then None
           else (case lit CHR ''.'' s2 of
                   None \<Rightarrow> Some (int sec * 1000, s2)
                 | Some s3 \<Rightarrow>
                     map_option (\<lambda>(ms, r). (int sec * 1000 + int ms, r)) (digits 3 s3))))"

definition parse_hms :: "string \<Rightarrow> (int \<times> string) option" where
  "parse_hms s =
     (case digits 2 s of None \<Rightarrow> None | Some (h, s1) \<Rightarrow>
     (case lit CHR '':'' s1 of None \<Rightarrow> None | Some s2 \<Rightarrow>
     (case digits 2 s2 of None \<Rightarrow> None | Some (mi, s3) \<Rightarrow>
     (case parse_seconds s3 of None \<Rightarrow> None | Some (sms, s4) \<Rightarrow>
        if 24 < h \<or> 59 < mi \<or> (h = 24 \<and> (mi \<noteq> 0 \<or> sms \<noteq> 0)) then None
        else Some (int h * 3600000 + int mi * 60000 + sms, s4)))))"

definition parse_zone :: "string \<Rightarrow> int option" where
  "parse_zone s =
     (if s = ''Z'' then Some 0
      else (case s of
        [] \<Rightarrow> None
      | c # r \<Rightarrow>
          if c = CHR ''+'' \<or> c = CHR ''-'' then
            (case digits 2 r of None \<Rightarrow> None | Some (h, s1) \<Rightarrow>
            (case lit CHR '':'' s1 of None \<Rightarrow> None | Some s2 \<Rightarrow>
            (case digits 2 s2 of None \<Rightarrow> None | Some (mi, s3) \<Rightarrow>
               if s3 \<noteq> [] \<or> 23 < h \<or> 59 < mi then None
               else Some ((if c = CHR ''-'' then -1 else 1) * (int h * 60 + int mi) * 60000))))
          else None))"

definition Date_parse :: "string \<Rightarrow> int option" where
  "Date_parse s =
     (case parse_ymd s of
        None \<Rightarrow> None
      | Some (day, s1) \<Rightarrow>
          if s1 = [] then TimeClip (day * msPerDay)
          else (case lit CHR ''T'' s1 of None \<Rightarrow> None | Some s2 \<Rightarrow>
               (case parse_hms s2 of None \<Rightarrow> None | Some (tod, s3) \<Rightarrow>
               (case parse_zone s3 of None \<Rightarrow> None | Some off \<Rightarrow>
                  TimeClip (day * msPerDay + tod - off)))))"

section \<open>dateUtils.js\<close>

text \<open>
  The argument of \<^verbatim>\<open>formatDate\<close> and \<^verbatim>\<open>getMonday\<close>: \<^verbatim>\<open>undefined\<close>, a string, or
  a Date object (given by its time value).
\<close>

datatype date_arg = Undefined | Str string | DateObj "int option"

text \<open>\<^verbatim>\<open>s.split('T')[0]\<close>: the text before the first \<^verbatim>\<open>T\<close>, all of \<open>s\<close> if there is none.\<close>

definition split_T_0 :: "string \<Rightarrow> string" where
  "split_T_0 s = takeWhile (\<lambda>c. c \<noteq> CHR ''T'') s"

definition formatDate :: "date_arg \<Rightarrow> error + string" where
  "formatDate date =
     (case date of
        Str s \<Rightarrow> Inr (split_T_0 s)
      | DateObj tv \<Rightarrow> map_sum id split_T_0 (toISOString tv)
      | Undefined \<Rightarrow> Inl TypeError)"

text \<open>
  \<^verbatim>\<open>getMonday(dateStr)\<close>. \<open>now\<close> is the clock, read when \<^verbatim>\<open>!dateStr\<close> holds
  (\<^verbatim>\<open>undefined\<close> or the empty string). An Invalid Date \<open>d\<close> makes every later value NaN
  and the final \<^verbatim>\<open>formatDate(monday)\<close> throw.
\<close>

definition getMonday :: "int \<Rightarrow> date_arg \<Rightarrow> error + string" where
  "getMonday now dateStr =
     (case (if dateStr = Undefined \<or> dateStr = Str [] then formatDate (DateObj (TimeClip now))
            else formatDate dateStr) of
        Inl e \<Rightarrow> Inl e
      | Inr inputDateStr \<Rightarrow>
          (case Date_parse (inputDateStr @ ''T00:00:00.000Z'') of
             None \<Rightarrow> formatDate (DateObj None)
           | Some d \<Rightarrow>
               let dayOfWeek = getUTCDay d;
                   daysToSubtract = (if dayOfWeek = 0 then 6 else dayOfWeek - 1);
                   monday = setUTCDate d (getUTCDate d - daysToSubtract)
               in formatDate (DateObj monday)))"

definition getNextMonday :: "string \<Rightarrow> error + string" where
  "getNextMonday mondayStr =
     (case Date_parse (mondayStr @ ''T00:00:00.000Z'') of
        None \<Rightarrow> formatDate (DateObj None)
      | Some monday \<Rightarrow> formatDate (DateObj (setUTCDate monday (getUTCDate monday + 7))))"


section \<open>Objects and arrays\<close>

text \<open>
  An object with string keys: its own properties in insertion order. The keys used here
  (dates, \<^verbatim>\<open>owner/repo\<close> names) are never array indices, so \<^verbatim>\<open>Object.keys\<close>,
  \<^verbatim>\<open>Object.entries\<close> and \<^verbatim>\<open>Object.values\<close> list them in insertion order. Writing
  an existing key keeps its position.
\<close>

type_synonym 'v obj = "(string \<times> 'v) list"

fun obj_set :: "('k \<times> 'v) list \<Rightarrow> 'k \<Rightarrow> 'v \<Rightarrow> ('k \<times> 'v) list" where
  "obj_set [] k v = [(k, v)]"
| "obj_set ((k', v') # kvs) k v =
     (if k' = k then (k', v) # kvs else (k', v') # obj_set kvs k v)"

definition obj_get :: "'v obj \<Rightarrow> string \<Rightarrow> 'v option" where
  "obj_get kvs k = map_of kvs k"

text \<open>\<^verbatim>\<open>Set.prototype.add\<close>: a Set lists its elements in insertion order.\<close>

definition set_add :: "string list \<Rightarrow> string \<Rightarrow> string list" where
  "set_add xs x = (if x \<in> set xs then xs else xs @ [x])"

text \<open>\<^verbatim>\<open>String(n)\<close> for a non-negative integer.\<close>

function decimal :: "nat \<Rightarrow> string" where
  "decimal n = (if n < 10 then [digit_char n] else decimal (n div 10) @ [digit_char n])"
  by pat_completeness auto
termination
  by (relation "measure id") auto

declare decimal.simps [simp del]

text \<open>
  A Date object of an array: its identity and its time value. \<^verbatim>\<open>a < b\<close> and
  \<^verbatim>\<open>a <= b\<close> on Dates compare the time values and are false when one is NaN.
\<close>

datatype Date = Date (oid: nat) (tv: "int option")

definition date_lt :: "int option \<Rightarrow> int option \<Rightarrow> bool" where
  "date_lt a b = (case a of None \<Rightarrow> False | Some x \<Rightarrow> (case b of None \<Rightarrow> False | Some y \<Rightarrow> x < y))"

definition date_le :: "int option \<Rightarrow> int option \<Rightarrow> bool" where
  "date_le a b = (case a of None \<Rightarrow> False | Some x \<Rightarrow> (case b of None \<Rightarrow> False | Some y \<Rightarrow> x \<le> y))"

text \<open>
  \<^verbatim>\<open>getTime\<close>. Of an Invalid Date it is NaN; the filter that precedes the sort lets no
  Invalid Date through, so the value given here for it is never compared.
\<close>

definition getTime :: "Date \<Rightarrow> int" where
  "getTime d = (case tv d of None \<Rightarrow> 0 | Some t \<Rightarrow> t)"

section \<open>stars.js: the aggregator\<close>

text \<open>
  \<^verbatim>\<open>stargazers.filter(star => star < upperBound).sort((a, b) => a.getTime() - b.getTime())\<close>.
  \<^verbatim>\<open>Array.prototype.sort\<close> is stable, as \<open>sort_key\<close> is.
\<close>

definition filteredStargazers :: "Date list \<Rightarrow> int option \<Rightarrow> Date list" where
  "filteredStargazers stargazers upperBound =
     sort_key getTime (filter (\<lambda>star. date_lt (tv star) upperBound) stargazers)"

text \<open>The loop over \<open>i\<close>: \<^verbatim>\<open>cumulative[getMonday(star)] = i + 1\<close>.\<close>

fun cumulative_loop :: "int \<Rightarrow> Date list \<Rightarrow> nat \<Rightarrow> nat obj \<Rightarrow> error + nat obj" where
  "cumulative_loop now [] i cumulative = Inr cumulative"
| "cumulative_loop now (star # rest) i cumulative =
     (case getMonday now (DateObj (tv star)) of
        Inl e \<Rightarrow> Inl e
      | Inr starMonday \<Rightarrow>
          cumulative_loop now rest (i + 1) (obj_set cumulative starMonday (i + 1)))"

definition generateCumulativeData :: "int \<Rightarrow> Date list \<Rightarrow> string \<Rightarrow> error + nat obj" where
  "generateCumulativeData now stargazers finalWeek =
     (if stargazers = [] then Inr []
      else (case getNextMonday finalWeek of
        Inl e \<Rightarrow> Inl e
      | Inr finalMonday \<Rightarrow>
          let upperBound = Date_parse (finalMonday @ ''T00:00:00.000Z'');
              filtered = filteredStargazers stargazers upperBound
          in if filtered = [] then Inr [] else cumulative_loop now filtered 0 []))"

section \<open>The other revision of stars.js (with generateChartsMarkdown)\<close>

text \<open>
  The process's time zone, taken as a fixed offset from UTC in minutes, with its name.
  \<^verbatim>\<open>Date.prototype.toString\<close> prints local time:
  \<^verbatim>\<open>Wed Sep 10 2025 00:00:00 GMT+0000 (Coordinated Universal Time)\<close>.
\<close>

datatype timezone = Timezone (tza: int) (tzname: string)

definition day_name :: "int \<Rightarrow> string" where
  "day_name wd = [''Sun'', ''Mon'', ''Tue'', ''Wed'', ''Thu'', ''Fri'', ''Sat''] ! nat wd"

definition month_name :: "int \<Rightarrow> string" where
  "month_name m =
     [''Jan'', ''Feb'', ''Mar'', ''Apr'', ''May'', ''Jun'',
      ''Jul'', ''Aug'', ''Sep'', ''Oct'', ''Nov'', ''Dec''] ! nat (m - 1)"

definition pad_min :: "nat \<Rightarrow> string \<Rightarrow> string" where
  "pad_min k s = replicate (k - length s) CHR ''0'' @ s"

definition Date_toString :: "timezone \<Rightarrow> int option \<Rightarrow> string" where
  "Date_toString tz d =
     (case d of
        None \<Rightarrow> ''Invalid Date''
      | Some t \<Rightarrow>
          let lt = t + tza tz * 60000;
              ms = TimeWithinDay lt
          in (case CivilFromDay (Day lt) of (y, m, dd) \<Rightarrow>
               day_name (getUTCDay lt) @ '' '' @ month_name m @ '' '' @ pad 2 (nat dd) @ '' '' @
               (if y < 0 then ''-'' else []) @ pad_min 4 (decimal (nat \<bar>y\<bar>)) @ '' '' @
               pad 2 (nat (ms div 3600000)) @ '':'' @ pad 2 (nat (ms div 60000 mod 60)) @ '':'' @
               pad 2 (nat (ms div 1000 mod 60)) @ '' GMT'' @
               (if tza tz < 0 then ''-'' else ''+'') @
               pad 2 (nat (\<bar>tza tz\<bar> div 60)) @ pad 2 (nat (\<bar>tza tz\<bar> mod 60)) @
               '' ('' @ tzname tz @ '')''))"

text \<open>
  \<^verbatim>\<open>stargazers.filter(star => star < upperBound).sort()\<close>: with no comparator,
  \<^verbatim>\<open>sort\<close> orders the elements by their string forms.
\<close>

definition filteredStargazers_charts :: "timezone \<Rightarrow> Date list \<Rightarrow> int option \<Rightarrow> Date list" where
  "filteredStargazers_charts tz stargazers upperBound =
     sort_key (\<lambda>star. Date_toString tz (tv star))
       (filter (\<lambda>star. date_lt (tv star) upperBound) stargazers)"

text \<open>The loop: \<^verbatim>\<open>cumulative[starMonday] = (cumulative[starMonday] || 0) + 1\<close>.\<close>

fun increment_loop :: "int \<Rightarrow> Date list \<Rightarrow> nat obj \<Rightarrow> error + nat obj" where
  "increment_loop now [] cumulative = Inr cumulative"
| "increment_loop now (star # rest) cumulative =
     (case getMonday now (DateObj (tv star)) of
        Inl e \<Rightarrow> Inl e
      | Inr starMonday \<Rightarrow>
          let existingCount = (case obj_get cumulative starMonday of None \<Rightarrow> 0 | Some c \<Rightarrow> c)
          in increment_loop now rest (obj_set cumulative starMonday (existingCount + 1)))"

definition generateCumulativeData_charts ::
  "timezone \<Rightarrow> int \<Rightarrow> Date list \<Rightarrow> string \<Rightarrow> error + nat obj" where
  "generateCumulativeData_charts tz now stargazers finalWeek =
     (if stargazers = [] then Inr []
      else (case getNextMonday finalWeek of
        Inl e \<Rightarrow> Inl e
      | Inr finalMonday \<Rightarrow>
          let upperBound = Date_parse (finalMonday @ ''T00:00:00.000Z'');
              filtered = filteredStargazers_charts tz stargazers upperBound
          in if filtered = [] then Inr [] else increment_loop now filtered []))"


section \<open>The aggregator with its arrays in a store\<close>

text \<open>
  The same function with the arrays in a store: an address names an array, \<^verbatim>\<open>filter\<close>
  allocates a new array, \<^verbatim>\<open>sort\<close> sorts the array it is called on in place and
  returns it. The caller's array is at address \<open>stargazers\<close>. The functions read the
  elements (\<^verbatim>\<open>star < upperBound\<close>, \<^verbatim>\<open>getTime\<close>, \<^verbatim>\<open>toISOString\<close>) and never
  write to them.
\<close>

type_synonym store = "Date list list"

definition array_filter :: "store \<Rightarrow> nat \<Rightarrow> (Date \<Rightarrow> bool) \<Rightarrow> store \<times> nat" where
  "array_filter h a p = (h @ [filter p (h ! a)], length h)"

definition array_sort :: "store \<Rightarrow> nat \<Rightarrow> (Date \<Rightarrow> 'k::linorder) \<Rightarrow> store \<times> nat" where
  "array_sort h a key = (h[a := sort_key key (h ! a)], a)"

definition generateCumulativeData_store ::
  "int \<Rightarrow> store \<Rightarrow> nat \<Rightarrow> string \<Rightarrow> store \<times> (error + nat obj)" where
  "generateCumulativeData_store now h stargazers finalWeek =
     (if h ! stargazers = [] then (h, Inr [])
      else (case getNextMonday finalWeek of
        Inl e \<Rightarrow> (h, Inl e)
      | Inr finalMonday \<Rightarrow>
          let upperBound = Date_parse (finalMonday @ ''T00:00:00.000Z'');
              (h1, filtered) = array_filter h stargazers (\<lambda>star. date_lt (tv star) upperBound);
              (h2, sortedCopy) = array_sort h1 filtered getTime
          in (h2, if h2 ! sortedCopy = [] then Inr []
                  else cumulative_loop now (h2 ! sortedCopy) 0 [])))"

definition generateCumulativeData_charts_store ::
  "timezone \<Rightarrow> int \<Rightarrow> store \<Rightarrow> nat \<Rightarrow> string \<Rightarrow> store \<times> (error + nat obj)" where
  "generateCumulativeData_charts_store tz now h stargazers finalWeek =
     (if h ! stargazers = [] then (h, Inr [])
      else (case getNextMonday finalWeek of
        Inl e \<Rightarrow> (h, Inl e)
      | Inr finalMonday \<Rightarrow>
          let upperBound = Date_parse (finalMonday @ ''T00:00:00.000Z'');
              (h1, filtered) = array_filter h stargazers (\<lambda>star. date_lt (tv star) upperBound);
              (h2, sortedCopy) = array_sort h1 filtered (\<lambda>star. Date_toString tz (tv star))
          in (h2, if h2 ! sortedCopy = [] then Inr []
                  else increment_loop now (h2 ! sortedCopy) [])))"

section \<open>lib/github.js and fetchAllStargazers\<close>

text \<open>
  What one \<^verbatim>\<open>gh api graphql\<close> call gives back: a non-zero exit status, output that is
  not JSON, a result with \<^verbatim>\<open>errors\<close>, a result without
  \<^verbatim>\<open>data.repository.stargazers\<close>, or a page of stargazers: the \<^verbatim>\<open>starredAt\<close> of each
  edge (\<open>None\<close> when absent), \<^verbatim>\<open>pageInfo.hasNextPage\<close> and \<^verbatim>\<open>pageInfo.endCursor\<close>
  (a stargazers object is taken to have its \<^verbatim>\<open>edges\<close> and its \<^verbatim>\<open>pageInfo\<close>).
  The world holds the responses \<^verbatim>\<open>gh\<close> will give, in call order, the requests made and
  the lines written by \<^verbatim>\<open>console.error\<close>.
\<close>

datatype gh_response =
    SpawnFailed
  | Unparseable
  | GraphQLErrors
  | NoStargazers
  | StargazersPage "string option list" bool "string option"

datatype request = StargazersQuery string string nat "string option"

datatype logline =
    QueryFailed
  | QueryUnparseable
  | QueryErrors
  | FetchFailed string
  | RepoError string error

datatype world = World (responses: "gh_response list") (requests: "request list") (errlog: "logline list")

definition console_error :: "logline \<Rightarrow> world \<Rightarrow> world" where
  "console_error l w = World (responses w) (requests w) (errlog w @ [l])"

definition runGraphQL :: "world \<Rightarrow> request \<Rightarrow> gh_response outcome \<times> world" where
  "runGraphQL w rq =
     (case responses w of
        [] \<Rightarrow> (Pending, World [] (requests w @ [rq]) (errlog w))
      | r # rs \<Rightarrow>
          let w' = World rs (requests w @ [rq]) (errlog w)
          in (case r of
                SpawnFailed \<Rightarrow> (Exited 1, console_error QueryFailed w')
              | Unparseable \<Rightarrow> (Exited 1, console_error QueryUnparseable w')
              | GraphQLErrors \<Rightarrow> (Exited 1, console_error QueryErrors w')
              | NoStargazers \<Rightarrow> (Returned r, w')
              | StargazersPage edges hasNextPage endCursor \<Rightarrow> (Returned r, w')))"

text \<open>A string option that is truthy: present and not empty.\<close>

definition truthy :: "string option \<Rightarrow> string option" where
  "truthy x = (case x of None \<Rightarrow> None | Some s \<Rightarrow> if s = [] then None else Some s)"

text \<open>
  \<^verbatim>\<open>if (edge.starredAt) stargazers.push(new Date(edge.starredAt))\<close>; the identity of a
  new Date is its index in the array.
\<close>

fun push_edges :: "Date list \<Rightarrow> string option list \<Rightarrow> Date list" where
  "push_edges stargazers [] = stargazers"
| "push_edges stargazers (edge # edges) =
     push_edges
       (case truthy edge of
          None \<Rightarrow> stargazers
        | Some starredAt \<Rightarrow> stargazers @ [Date (length stargazers) (Date_parse starredAt)])
       edges"

function fetch_loop ::
  "world \<Rightarrow> string \<Rightarrow> string \<Rightarrow> string option \<Rightarrow> Date list \<Rightarrow> Date list outcome \<times> world" where
  "fetch_loop w owner name after stargazers =
     (case runGraphQL w (StargazersQuery owner name 100 (truthy after)) of
        (Returned (StargazersPage edges hasNextPage endCursor), w') \<Rightarrow>
          if hasNextPage then fetch_loop w' owner name endCursor (push_edges stargazers edges)
          else (Returned (push_edges stargazers edges), w')
      | (Returned r, w') \<Rightarrow>
          (Returned stargazers, console_error (FetchFailed (owner @ ''/'' @ name)) w')
      | (Thrown e, w') \<Rightarrow> (Thrown e, w')
      | (Exited n, w') \<Rightarrow> (Exited n, w')
      | (Pending, w') \<Rightarrow> (Pending, w'))"
  by pat_completeness auto
termination
  by (relation "measure (\<lambda>(w, owner, name, after, stargazers). length (responses w))")
     (auto simp: runGraphQL_def Let_def split: list.splits gh_response.splits)

declare fetch_loop.simps [simp del]

definition fetchAllStargazers :: "world \<Rightarrow> string \<Rightarrow> string \<Rightarrow> Date list outcome \<times> world" where
  "fetchAllStargazers w owner name = fetch_loop w owner name None []"

section \<open>stars.js: main\<close>

text \<open>\<^verbatim>\<open>s.split(c)\<close> for a one-character separator.\<close>

fun split_on :: "char \<Rightarrow> string \<Rightarrow> string list" where
  "split_on c [] = [[]]"
| "split_on c (x # xs) =
     (if x = c then [] # split_on c xs
      else (case split_on c xs of [] \<Rightarrow> [[x]] | p # ps \<Rightarrow> (x # p) # ps))"

definition is_space :: "char \<Rightarrow> bool" where
  "is_space c = (c \<in> set [CHR '' '', CHR 0x09, CHR 0x0A, CHR 0x0B, CHR 0x0C, CHR 0x0D])"

text \<open>\<^verbatim>\<open>s.trim()\<close>, on ASCII white space.\<close>

definition trim :: "string \<Rightarrow> string" where
  "trim s = rev (dropWhile is_space (rev (dropWhile is_space s)))"

definition parseRepoString :: "string \<Rightarrow> error + string \<times> string" where
  "parseRepoString repoString =
     (case split_on CHR ''/'' repoString of
        [owner, name] \<Rightarrow> Inr (owner, name)
      | _ \<Rightarrow> Inl (InvalidRepositoryFormat repoString))"

text \<open>
  An entry of \<^verbatim>\<open>allData\<close>: \<^verbatim>\<open>{ name, cumulative }\<close>, and the \<^verbatim>\<open>total\<close> that
  \<^verbatim>\<open>generateChartsMarkdown\<close> adds.
\<close>

datatype Repo = Repo (repo_name: string) (repo_cumulative: "nat obj") (repo_total: "nat option")

text \<open>
  \<^verbatim>\<open>Object.fromEntries(new Map([...Object.entries(cumulativeData)].sort()))\<close>: the default
  \<^verbatim>\<open>sort\<close> compares the entries as the strings \<^verbatim>\<open>key,value\<close>.
\<close>

definition sort_entries :: "nat obj \<Rightarrow> nat obj" where
  "sort_entries cumulativeData = sort_key (\<lambda>(k, v). k @ '','' @ decimal v) cumulativeData"

text \<open>
  The loop of \<^verbatim>\<open>main\<close> over the repository strings. \<open>aggregate\<close> is
  \<^verbatim>\<open>generateCumulativeData\<close> of the revision at hand. An exception thrown in the
  \<^verbatim>\<open>try\<close> block is logged and the loop goes on; \<^verbatim>\<open>process.exit\<close> ends the run.
\<close>

fun main_loop ::
  "(Date list \<Rightarrow> string \<Rightarrow> error + nat obj) \<Rightarrow> string \<Rightarrow> world \<Rightarrow> string list \<Rightarrow> Repo obj
     \<Rightarrow> Repo obj outcome \<times> world" where
  "main_loop aggregate finalWeek w [] allData = (Returned allData, w)"
| "main_loop aggregate finalWeek w (repoString # rest) allData =
     (case parseRepoString repoString of
        Inl e \<Rightarrow> main_loop aggregate finalWeek (console_error (RepoError repoString e) w) rest allData
      | Inr (owner, name) \<Rightarrow>
          (case fetchAllStargazers w owner name of
             (Returned stargazers, w') \<Rightarrow>
               (case aggregate stargazers finalWeek of
                  Inl e \<Rightarrow>
                    main_loop aggregate finalWeek (console_error (RepoError repoString e) w') rest allData
                | Inr cumulativeData \<Rightarrow>
                    let repoName = owner @ ''/'' @ name
                    in main_loop aggregate finalWeek w' rest
                         (obj_set allData repoName (Repo repoName (sort_entries cumulativeData) None)))
           | (Thrown e, w') \<Rightarrow>
               main_loop aggregate finalWeek (console_error (RepoError repoString e) w') rest allData
           | (Exited n, w') \<Rightarrow> (Exited n, w')
           | (Pending, w') \<Rightarrow> (Pending, w')))"

text \<open>
  \<^verbatim>\<open>main\<close>: \<open>args\<close> is \<^verbatim>\<open>process.argv.slice(2)\<close>. The result is the array written to
  \<^verbatim>\<open>stargazers.json\<close>, \<^verbatim>\<open>Object.values(allData)\<close>. An exception of
  \<^verbatim>\<open>getMonday(args[2])\<close> is not caught.
\<close>

definition main :: "int \<Rightarrow> world \<Rightarrow> string list \<Rightarrow> Repo list outcome \<times> world" where
  "main now w args =
     (if length args < 2 then (Exited 1, w)
      else (case getMonday now (if 2 < length args then Str (args ! 2) else Undefined) of
        Inl e \<Rightarrow> (Thrown e, w)
      | Inr finalWeek \<Rightarrow>
          (case main_loop (generateCumulativeData now) finalWeek w
                  (map trim (split_on CHR '','' (args ! 0))) [] of
             (Returned allData, w') \<Rightarrow> (Returned (map snd allData), w')
           | (Thrown e, w') \<Rightarrow> (Thrown e, w')
           | (Exited n, w') \<Rightarrow> (Exited n, w')
           | (Pending, w') \<Rightarrow> (Pending, w'))))"

section \<open>The calendar: day numbers and dates\<close>

text \<open>
  The day number of the date of a day number is that day number again, so
  \<^verbatim>\<open>setUTCDate(getUTCDate() + k)\<close> moves a time by \<open>k\<close> days. The loop of
  \<^verbatim>\<open>generateChartsMarkdown\<close>, defined next, terminates by this.
\<close>

lemma div_bounds:
  fixes c y :: int
  assumes "0 < c"
  shows "c * (y div c) \<le> y" and "y < c * (y div c) + c"
proof -
  have e: "c * (y div c) + y mod c = y" by simp
  have "0 \<le> y mod c" "y mod c < c" using assms by simp_all
  with e show "c * (y div c) \<le> y" and "y < c * (y div c) + c" by linarith+
qed

lemma DaysToMarch_bounds:
  "146097 * y - 699 \<le> 400 * DaysToMarch y" "400 * DaysToMarch y \<le> 146097 * y + 396"
proof -
  define a where "a = y div 4"
  define b where "b = y div 100"
  define c where "c = y div 400"
  have f: "4 * a \<le> y" "y < 4 * a + 4" "100 * b \<le> y" "y < 100 * b + 100"
    "400 * c \<le> y" "y < 400 * c + 400"
    unfolding a_def b_def c_def using div_bounds [of 4 y] div_bounds [of 100 y] div_bounds [of 400 y]
    by simp_all
  have d: "400 * DaysToMarch y = 146000 * y + 400 * a - 400 * b + 400 * c"
    by (simp add: DaysToMarch_def a_def b_def c_def)
  show "146097 * y - 699 \<le> 400 * DaysToMarch y" unfolding d using f by linarith
  show "400 * DaysToMarch y \<le> 146097 * y + 396" unfolding d using f by linarith
qed

lemma MarchYear_correct:
  "DaysToMarch (MarchYear z) \<le> z" "z < DaysToMarch (MarchYear z + 1)"
proof -
  define y0 where "y0 = (400 * z) div 146097"
  have a: "146097 * y0 \<le> 400 * z" and b: "400 * z < 146097 * y0 + 146097"
    unfolding y0_def using div_bounds [of 146097 "400 * z"] by simp_all
  have lo: "DaysToMarch (y0 - 1) \<le> z"
    using DaysToMarch_bounds(2) [of "y0 - 1"] a by (simp add: algebra_simps)
  have hi: "z < DaysToMarch (y0 + 2)"
    using DaysToMarch_bounds(1) [of "y0 + 2"] b by (simp add: algebra_simps)
  have m: "MarchYear z = (if DaysToMarch (y0 + 1) \<le> z then y0 + 1
         else if DaysToMarch y0 \<le> z then y0 else y0 - 1)"
    by (simp add: MarchYear_def y0_def Let_def)
  have e: "y0 + 1 + 1 = y0 + 2" "y0 - 1 + 1 = y0" by simp_all
  show "DaysToMarch (MarchYear z) \<le> z" using lo unfolding m by simp
  show "z < DaysToMarch (MarchYear z + 1)" using hi unfolding m by (simp add: e)
qed


lemma DaysToMarch_step: "DaysToMarch (y + 1) \<le> DaysToMarch y + 366"
proof -
  define a where "a = y div 4"
  define b where "b = y div 100"
  define c where "c = b div 4"
  define a' where "a' = (y + 1) div 4"
  define b' where "b' = (y + 1) div 100"
  define c' where "c' = b' div 4"
  have f: "4 * a \<le> y" "y < 4 * a + 4" "100 * b \<le> y" "y < 100 * b + 100"
    "4 * c \<le> b" "b < 4 * c + 4"
    unfolding a_def b_def c_def
    using div_bounds [of 4 y] div_bounds [of 100 y] div_bounds [of 4 "y div 100"]
    by simp_all
  have f': "4 * a' \<le> y + 1" "y + 1 < 4 * a' + 4" "100 * b' \<le> y + 1" "y + 1 < 100 * b' + 100"
    "4 * c' \<le> b'" "b' < 4 * c' + 4"
    unfolding a'_def b'_def c'_def
    using div_bounds [of 4 "y + 1"] div_bounds [of 100 "y + 1"] div_bounds [of 4 "(y + 1) div 100"]
    by simp_all
  have e: "y div 400 = c" "(y + 1) div 400 = c'"
    unfolding c_def c'_def b_def b'_def by (simp_all add: zdiv_zmult2_eq)
  have d: "DaysToMarch y = 365 * y + a - b + c" "DaysToMarch (y + 1) = 365 * y + 365 + a' - b' + c'"
    by (simp_all add: DaysToMarch_def e a_def b_def a'_def b'_def)
  have "a' \<le> a + 1" using f f' by linarith
  moreover have "b \<le> b'" "b' \<le> b + 1" using f f' by linarith+
  moreover have "c' - c \<le> b' - b"
  proof (cases "b' = b")
    case True then show ?thesis by (simp add: c_def c'_def)
  next
    case False
    then have "b' = b + 1" using \<open>b \<le> b'\<close> \<open>b' \<le> b + 1\<close> by linarith
    then show ?thesis using f f' by linarith
  qed
  ultimately show ?thesis unfolding d by linarith
qed

lemma CivilFromDay_props:
  assumes "CivilFromDay n = (y, m, d)"
  shows "1 \<le> m" "m \<le> 12" "1 \<le> d" "d \<le> 31" "MakeDay y m d = n"
proof -
  define z where "z = n + 719468"
  define yr where "yr = MarchYear z"
  define doy where "doy = z - DaysToMarch yr"
  define mp where "mp = (5 * doy + 2) div 153"
  define e where "e = (153 * mp + 2) div 5"
  have "0 \<le> doy" "doy \<le> 365"
    using MarchYear_correct [of z] DaysToMarch_step [of yr] unfolding doy_def yr_def by linarith+
  have fm: "153 * mp \<le> 5 * doy + 2" "5 * doy + 2 < 153 * mp + 153"
    unfolding mp_def using div_bounds [of 153 "5 * doy + 2"] by simp_all
  have fe: "5 * e \<le> 153 * mp + 2" "153 * mp + 2 < 5 * e + 5"
    unfolding e_def using div_bounds [of 5 "153 * mp + 2"] by simp_all
  have mp: "0 \<le> mp" "mp \<le> 11" using fm \<open>0 \<le> doy\<close> \<open>doy \<le> 365\<close> by linarith+
  have c0: "CivilFromDay n =
      (if (if mp < 10 then mp + 3 else mp - 9) \<le> 2 then yr + 1 else yr,
       if mp < 10 then mp + 3 else mp - 9, doy - e + 1)"
    unfolding CivilFromDay_def Let_def z_def [symmetric] yr_def [symmetric] doy_def [symmetric]
      mp_def [symmetric] e_def [symmetric] by (rule refl)
  have c: "CivilFromDay n = (if mp < 10 then yr else yr + 1, if mp < 10 then mp + 3 else mp - 9, doy - e + 1)"
    unfolding c0 using mp by simp
  have y: "y = (if mp < 10 then yr else yr + 1)" and m: "m = (if mp < 10 then mp + 3 else mp - 9)"
    and d: "d = doy - e + 1"
    using assms unfolding c by simp_all
  show "1 \<le> m" "m \<le> 12" using mp unfolding m by (simp_all split: if_splits)
  show "1 \<le> d" "d \<le> 31" unfolding d using fm fe by linarith+
  have mm: "(m + 9) mod 12 = mp" using mp unfolding m by (simp split: if_splits)
  have my: "(if m \<le> 2 then y - 1 else y) = yr" using mp unfolding m y by (simp split: if_splits)
  show "MakeDay y m d = n"
    unfolding MakeDay_def my mm Let_def e_def [symmetric] d doy_def z_def by simp
qed

lemma calendar_samples:
  "CivilFromDay 0 = (1970, 1, 1)" "getUTCDay 0 = 4"
  "CivilFromDay 20341 = (2025, 9, 10)" "getUTCDay (20341 * msPerDay) = 3"
  "CivilFromDay 19782 = (2024, 2, 29)" "CivilFromDay 19783 = (2024, 3, 1)"
  "CivilFromDay (- 25509) = (1900, 2, 28)" "CivilFromDay (- 25508) = (1900, 3, 1)"
  "CivilFromDay 11016 = (2000, 2, 29)" "MakeDay 2025 9 10 = 20341" "MakeDay 2025 2 30 = MakeDay 2025 3 2"
  by code_simp+

lemma MakeDay_add: "MakeDay y m (d + k) = MakeDay y m d + k"
  by (simp add: MakeDay_def Let_def)

lemma setUTCDate_shift: "setUTCDate t (getUTCDate t + k) = TimeClip (t + k * msPerDay)"
proof -
  obtain y m d where c: "CivilFromDay (Day t) = (y, m, d)" by (cases "CivilFromDay (Day t)") auto
  have "MakeDay y m (d + k) = Day t + k"
    using CivilFromDay_props(5) [OF c] by (simp add: MakeDay_add)
  moreover have "Day t * msPerDay + TimeWithinDay t = t"
    by (simp add: Day_def TimeWithinDay_def)
  ultimately have "MakeDay y m (d + k) * msPerDay + TimeWithinDay t = t + k * msPerDay"
    by (simp add: algebra_simps)
  then show ?thesis
    by (simp add: setUTCDate_def getUTCDate_def c)
qed

section \<open>generateChartsMarkdown (the revision of stars.js with charts)\<close>

text \<open>
  The loop \<^verbatim>\<open>while (current <= endDate)\<close>: it pushes \<^verbatim>\<open>formatDate(current)\<close> and
  moves \<open>current\<close> seven days on. It ends because \<open>current\<close> grows, or becomes an
  Invalid Date, for which the comparison is false.
\<close>

function mondays_loop :: "int option \<Rightarrow> int option \<Rightarrow> string list \<Rightarrow> error + string list" where
  "mondays_loop current endDate allMondays =
     (case current of
        None \<Rightarrow> Inr allMondays
      | Some c \<Rightarrow>
          if date_le (Some c) endDate then
            (case formatDate (DateObj (Some c)) of
               Inl e \<Rightarrow> Inl e
             | Inr s \<Rightarrow> mondays_loop (setUTCDate c (getUTCDate c + 7)) endDate (allMondays @ [s]))
          else Inr allMondays)"
  by pat_completeness auto
termination
proof (relation "measure (\<lambda>(current, endDate, allMondays).
          case current of None \<Rightarrow> 0
          | Some c \<Rightarrow> (case endDate of None \<Rightarrow> 0 | Some e \<Rightarrow> nat (e - c + 1)))", goal_cases)
  case 1
  show ?case by simp
next
  case (2 current endDate allMondays c s)
  obtain e where e: "endDate = Some e" and ce: "c \<le> e"
    using 2(2) by (cases endDate) (simp_all add: date_le_def)
  have "0 < 7 * msPerDay" by (simp add: msPerDay_def)
  then show ?case
    using ce 2(1) by (simp add: setUTCDate_shift TimeClip_def e)
qed

declare mondays_loop.simps [simp del]

text \<open>The union of the dates of all repositories, in a Set.\<close>

definition collect_dates :: "Repo obj \<Rightarrow> string list" where
  "collect_dates allData =
     foldl (\<lambda>allDates repo. foldl set_add allDates (map fst (repo_cumulative repo))) []
       (map snd allData)"

text \<open>
  The data of one series: \<^verbatim>\<open>add = cumulative[date] || 0; prev = prev + add;
  data.push(prev)\<close>. The result is \<open>data\<close> and the last \<open>prev\<close>.
\<close>

fun running_totals :: "nat obj \<Rightarrow> string list \<Rightarrow> nat \<Rightarrow> nat list \<Rightarrow> nat list \<times> nat" where
  "running_totals cumulative [] prev data = (data, prev)"
| "running_totals cumulative (date # rest) prev data =
     (let add = (case obj_get cumulative date of None \<Rightarrow> 0 | Some v \<Rightarrow> v)
      in running_totals cumulative rest (prev + add) (data @ [prev + add]))"

text \<open>
  What the markdown file is made of: the labels of the chart, one series (title and
  data) per repository, and per repository the summary lines: name, total, number of data
  points, first and last date (\<open>None\<close> for \<^verbatim>\<open>undefined\<close>).
\<close>

datatype charts = Charts
  (chart_labels: "string list")
  (chart_series: "(string \<times> nat list) list")
  (chart_summary: "(string \<times> nat \<times> nat \<times> string option \<times> string option) list")

definition first_date :: "string list \<Rightarrow> string option" where
  "first_date dates = (case dates of [] \<Rightarrow> None | d # ds \<Rightarrow> Some d)"

definition latest_date :: "string list \<Rightarrow> string option" where
  "latest_date dates = (if dates = [] then None else Some (last dates))"

definition template_date :: "string option \<Rightarrow> string" where
  "template_date d = (case d of None \<Rightarrow> ''undefined'' | Some s \<Rightarrow> s) @ ''T00:00:00.000Z''"

text \<open>
  \<^verbatim>\<open>generateChartsMarkdown(allData, outputPath)\<close>. The second component is \<open>allData\<close>
  afterwards: the function sets \<^verbatim>\<open>repo.total\<close> of every repository.
\<close>

definition generateChartsMarkdown :: "Repo obj \<Rightarrow> error + charts \<times> Repo obj" where
  "generateChartsMarkdown allData =
     (let sortedDates = sort (collect_dates allData);
          current = Date_parse (template_date (first_date sortedDates));
          endDate = Date_parse (template_date (latest_date sortedDates))
      in case mondays_loop current endDate [] of
           Inl e \<Rightarrow> Inl e
         | Inr allMondays \<Rightarrow>
             let allData' =
                   map (\<lambda>(repoName, repo).
                          (repoName,
                           Repo (repo_name repo) (repo_cumulative repo)
                             (Some (snd (running_totals (repo_cumulative repo) allMondays 0 [])))))
                       allData
             in Inr
                  (Charts allMondays
                     (map (\<lambda>(repoName, repo).
                             (repo_name repo,
                              fst (running_totals (repo_cumulative repo) allMondays 0 [])))
                          allData)
                     (map (\<lambda>(repoName, repo).
                             (repo_name repo,
                              (case repo_total repo of None \<Rightarrow> 0 | Some n \<Rightarrow> n),
                              length (repo_cumulative repo),
                              first_date (map fst (repo_cumulative repo)),
                              latest_date (map fst (repo_cumulative repo))))
                          allData'),
                   allData'))"

text \<open>\<^verbatim>\<open>main\<close> of this revision: the same loop, then \<^verbatim>\<open>generateChartsMarkdown(allData)\<close>.\<close>

definition main_charts ::
  "timezone \<Rightarrow> int \<Rightarrow> world \<Rightarrow> string list \<Rightarrow> (Repo list \<times> charts) outcome \<times> world" where
  "main_charts tz now w args =
     (if length args < 2 then (Exited 1, w)
      else (case getMonday now (if 2 < length args then Str (args ! 2) else Undefined) of
        Inl e \<Rightarrow> (Thrown e, w)
      | Inr finalWeek \<Rightarrow>
          (case main_loop (generateCumulativeData_charts tz now) finalWeek w
                  (map trim (split_on CHR '','' (args ! 0))) [] of
             (Returned allData, w') \<Rightarrow>
               (case generateChartsMarkdown allData of
                  Inl e \<Rightarrow> (Thrown e, w')
                | Inr (chart, allData') \<Rightarrow> (Returned (map snd allData, chart), w'))
           | (Thrown e, w') \<Rightarrow> (Thrown e, w')
           | (Exited n, w') \<Rightarrow> (Exited n, w')
           | (Pending, w') \<Rightarrow> (Pending, w'))))"

section \<open>Notions used to state the properties\<close>

text \<open>The day number of the Monday of the week of day \<open>n\<close>.\<close>

definition monday_day :: "int \<Rightarrow> int" where
  "monday_day n = n - (n + 3) mod 7"

text \<open>
  A Date object holds NaN or a time value within the range of \<open>TimeClip\<close>. It is
  well formed when, besides, the Monday of its week is within that range too (every time
  from -271821-04-26T00:00:00Z on): \<open>getMonday\<close> throws on the six days before.
\<close>

definition valid_date :: "Date \<Rightarrow> bool" where
  "valid_date d = (case tv d of None \<Rightarrow> True | Some t \<Rightarrow> \<bar>t\<bar> \<le> 8640000000000000)"

definition well_formed_date :: "Date \<Rightarrow> bool" where
  "well_formed_date d =
     (case tv d of None \<Rightarrow> True
      | Some t \<Rightarrow> - 8639999481600000 \<le> t \<and> t \<le> 8640000000000000)"

definition in_week_range :: "Date \<Rightarrow> bool" where
  "in_week_range x =
     (case tv x of None \<Rightarrow> False
      | Some t \<Rightarrow> \<bar>t\<bar> \<le> 8640000000000000 \<and> - 100000000 \<le> monday_day (Day t))"

text \<open>The week (day number of its Monday) of a Date, and a series entry as the code stores it.\<close>

definition week_of :: "Date \<Rightarrow> int" where
  "week_of x = monday_day (Day (getTime x))"

definition entry :: "int \<times> nat \<Rightarrow> string \<times> nat" where
  "entry = (\<lambda>(n, v). (iso_date n, v))"

text \<open>The loop of \<open>cumulative_loop\<close> on day numbers instead of date strings.\<close>

fun week_loop :: "int list \<Rightarrow> nat \<Rightarrow> (int \<times> nat) list \<Rightarrow> (int \<times> nat) list" where
  "week_loop [] i ws = ws"
| "week_loop (m # ms) i ws = week_loop ms (Suc i) (obj_set ws m (Suc i))"

text \<open>
  A series in week order: keys strictly increasing and at most \<open>b\<close>, values strictly
  increasing and at most \<open>i\<close>.
\<close>

definition good :: "(int \<times> nat) list \<Rightarrow> nat \<Rightarrow> int \<Rightarrow> bool" where
  "good ws i b \<longleftrightarrow>
     sorted_wrt (\<lambda>p q. fst p < fst q \<and> snd p < snd q) ws \<and>
     list_all (\<lambda>p. fst p \<le> b \<and> snd p \<le> i) ws"




section \<open>Date strings: formatting and parsing are inverse\<close>

lemma lt10: "(k::nat) < 10 \<Longrightarrow> k = 0 \<or> k = 1 \<or> k = 2 \<or> k = 3 \<or> k = 4 \<or> k = 5 \<or> k = 6 \<or> k = 7 \<or> k = 8 \<or> k = 9"
  by arith

lemma digit_of_digit_char: "digit_of (digit_char n) = Some (n mod 10)"
proof -
  have "n mod 10 < 10" by simp
  from lt10 [OF this] show ?thesis
    by (elim disjE) (simp_all add: digit_char_def digit_of_def)
qed

lemma digit_char_not_T: "digit_char n \<noteq> CHR ''T''"
proof
  assume "digit_char n = CHR ''T''"
  then have "digit_of (digit_char n) = None" by (simp add: digit_of_def)
  then show False by (simp add: digit_of_digit_char)
qed

lemma digit_char_not_sign: "digit_char n \<noteq> CHR ''+''" "digit_char n \<noteq> CHR ''-''"
proof -
  have "digit_of (CHR ''+'') = None" "digit_of (CHR ''-'') = None" by (simp_all add: digit_of_def)
  then show "digit_char n \<noteq> CHR ''+''" "digit_char n \<noteq> CHR ''-''"
    using digit_of_digit_char [of n] by auto
qed

lemma T_notin_pad: "CHR ''T'' \<notin> set (pad k n)"
  by (induction k arbitrary: n) (simp_all add: digit_char_not_T [symmetric])

lemma pad_Suc_hd: "\<exists>m r. pad (Suc k) n = digit_char m # r"
proof (induction k arbitrary: n)
  case 0
  show ?case by auto
next
  case (Suc k)
  obtain m r where "pad (Suc k) (n div 10) = digit_char m # r" using Suc by blast
  then have "pad (Suc (Suc k)) n = digit_char m # (r @ [digit_char n])" by simp
  then show ?case by blast
qed


lemma digits_acc_pad:
  "digits_acc (k + j) acc (pad k n @ r) = digits_acc j (acc * 10 ^ k + n mod 10 ^ k) r"
proof (induction k arbitrary: n r j)
  case 0
  show ?case by simp
next
  case (Suc k)
  have a: "n mod (10 * 10 ^ k) = 10 * (n div 10 mod 10 ^ k) + n mod 10"
    by (simp add: mod_mult2_eq)
  have "digits_acc (Suc k + j) acc (pad (Suc k) n @ r)
      = digits_acc (k + Suc j) acc (pad k (n div 10) @ (digit_char n # r))" by simp
  also have "\<dots> = digits_acc (Suc j) (acc * 10 ^ k + n div 10 mod 10 ^ k) (digit_char n # r)"
    by (rule Suc.IH)
  also have "\<dots> = digits_acc j (acc * 10 ^ Suc k + n mod 10 ^ Suc k) r"
    by (simp add: digit_of_digit_char a algebra_simps)
  finally show ?case .
qed

lemma digits_pad: "n < 10 ^ k \<Longrightarrow> digits k (pad k n @ r) = Some (n, r)"
  using digits_acc_pad [of k 0 0 n r] by (simp add: digits_def)

lemma T_notin_iso_date: "CHR ''T'' \<notin> set (iso_date n)"
proof -
  obtain y m d where c: "CivilFromDay n = (y, m, d)" by (cases "CivilFromDay n") auto
  have "CHR ''T'' \<notin> set (iso_year y)" by (simp add: iso_year_def T_notin_pad)
  then show ?thesis
    by (simp add: iso_date_def c T_notin_pad)
qed

lemma split_T_0_iso_date: "split_T_0 (iso_date n @ CHR ''T'' # r) = iso_date n"
proof -
  have "\<forall>x\<in>set (iso_date n). x \<noteq> CHR ''T''" using T_notin_iso_date [of n] by blast
  then show ?thesis unfolding split_T_0_def by (simp add: takeWhile_tail)
qed

lemma split_T_0_id: "CHR ''T'' \<notin> set s \<Longrightarrow> split_T_0 s = s"
  unfolding split_T_0_def by (induction s) auto

lemma pad_4_hd: "\<exists>m t. pad 4 n = digit_char m # t"
proof -
  have "(4::nat) = Suc 3" by simp
  then show ?thesis using pad_Suc_hd [of 3 n] by metis
qed

lemma nat_lt_4_digits: "0 \<le> y \<and> y \<le> 9999 \<Longrightarrow> nat y < 10 ^ 4" by (simp add: nat_less_iff)
lemma nat_lt_6_digits: "\<bar>y\<bar> \<le> 999999 \<Longrightarrow> nat \<bar>y\<bar> < 10 ^ 6" by simp

lemma parse_year_iso_year:
  assumes "\<bar>y\<bar> \<le> 999999"
  shows "parse_year (iso_year y @ r) = Some (y, r)"
proof (cases "0 \<le> y \<and> y \<le> 9999")
  case True
  obtain m t where p: "pad 4 (nat y) = digit_char m # t" using pad_4_hd by blast
  have d: "digits 4 (pad 4 (nat y) @ r) = Some (nat y, r)" by (rule digits_pad) (use True nat_lt_4_digits in blast)
  have "parse_year ((digit_char m # t) @ r)
      = map_option (\<lambda>(v, r'). (int v, r')) (digits 4 ((digit_char m # t) @ r))"
    by (simp add: parse_year_def digit_char_not_sign)
  then show ?thesis using True d by (simp add: iso_year_def p)
next
  case False
  have d: "digits 6 (pad 6 (nat \<bar>y\<bar>) @ r) = Some (nat \<bar>y\<bar>, r)"
    by (rule digits_pad) (use assms nat_lt_6_digits in blast)
  show ?thesis
  proof (cases "y < 0")
    case True
    then show ?thesis using False d by (simp add: iso_year_def parse_year_def)
  next
    case n: False
    then show ?thesis using False d by (simp add: iso_year_def parse_year_def)
  qed
qed

lemma CivilFromDay_year:
  assumes "CivilFromDay n = (y, m, d)" "\<bar>n\<bar> \<le> 100000000"
  shows "\<bar>y\<bar> \<le> 999999"
proof -
  define z where "z = n + 719468"
  define yr where "yr = MarchYear z"
  have y: "y = yr \<or> y = yr + 1"
    using assms(1) by (auto simp: CivilFromDay_def Let_def z_def yr_def split: if_splits)
  have "146097 * yr - 699 \<le> 400 * z"
    using DaysToMarch_bounds(1) [of yr] MarchYear_correct(1) [of z] unfolding yr_def by linarith
  moreover have "400 * z < 146097 * yr + 146097 + 396"
    using DaysToMarch_bounds(2) [of "yr + 1"] MarchYear_correct(2) [of z] unfolding yr_def
    by (simp add: algebra_simps)
  moreover have "- 100000000 \<le> n" "n \<le> 100000000" using assms(2) by linarith+
  ultimately have "146097 * yr \<le> 400 * n + 287787899" "400 * n + 287640707 < 146097 * yr"
    unfolding z_def by (simp_all add: algebra_simps)
  with \<open>- 100000000 \<le> n\<close> \<open>n \<le> 100000000\<close>
  have "yr \<le> 300000" "- 300000 \<le> yr" by linarith+
  then show ?thesis using y by linarith
qed

lemma pad2_digits: "0 \<le> m \<Longrightarrow> m \<le> 31 \<Longrightarrow> digits 2 (pad 2 (nat m) @ r) = Some (nat m, r)"
  by (rule digits_pad) (simp add: nat_less_iff)

lemma parse_ymd_iso_date:
  assumes "\<bar>n\<bar> \<le> 100000000"
  shows "parse_ymd (iso_date n @ r) = Some (n, r)"
proof -
  obtain y m d where c: "CivilFromDay n = (y, m, d)" by (cases "CivilFromDay n") auto
  note p = CivilFromDay_props [OF c]
  have yb: "\<bar>y\<bar> \<le> 999999" using CivilFromDay_year [OF c assms] .
  have s: "iso_date n @ r = iso_year y @ (CHR ''-'' # pad 2 (nat m) @ (CHR ''-'' # pad 2 (nat d) @ r))"
    by (simp add: iso_date_def c)
  have dm: "digits 2 (pad 2 (nat m) @ (CHR ''-'' # pad 2 (nat d) @ r)) = Some (nat m, CHR ''-'' # pad 2 (nat d) @ r)"
    using p by (intro pad2_digits) linarith+
  have dd: "digits 2 (pad 2 (nat d) @ r) = Some (nat d, r)"
    using p by (intro pad2_digits) linarith+
  have r: "1 \<le> nat m" "nat m \<le> 12" "1 \<le> nat d" "nat d \<le> 31" "int (nat m) = m" "int (nat d) = d"
    using p by linarith+
  have nn: "0 \<le> m" "0 \<le> d" using p by linarith+
  show ?thesis
    unfolding s parse_ymd_def using r(1-4) nn
    by (simp add: parse_year_iso_year [OF yb] lit_def dm dd p(5))
qed

lemma midnight_suffix:
  "lit CHR ''T'' ''T00:00:00.000Z'' = Some ''00:00:00.000Z''"
  "parse_hms ''00:00:00.000Z'' = Some (0, ''Z'')"
  "parse_zone ''Z'' = Some 0"
  by code_simp+

lemma Date_parse_midnight:
  assumes "\<bar>n\<bar> \<le> 100000000"
  shows "Date_parse (iso_date n @ ''T00:00:00.000Z'') = Some (n * msPerDay)"
proof -
  have "TimeClip (n * msPerDay) = Some (n * msPerDay)"
    using assms by (simp add: TimeClip_def msPerDay_def abs_mult)
  then show ?thesis
    unfolding Date_parse_def by (simp add: parse_ymd_iso_date [OF assms] midnight_suffix)
qed

lemma Date_parse_date_only:
  assumes "\<bar>n\<bar> \<le> 100000000"
  shows "Date_parse (iso_date n) = Some (n * msPerDay)"
proof -
  have "TimeClip (n * msPerDay) = Some (n * msPerDay)"
    using assms by (simp add: TimeClip_def msPerDay_def abs_mult)
  then show ?thesis
    unfolding Date_parse_def using parse_ymd_iso_date [OF assms, of "[]"] by simp
qed

lemma iso_date_inj:
  assumes "\<bar>a\<bar> \<le> 100000000" "\<bar>b\<bar> \<le> 100000000" "iso_date a = iso_date b"
  shows "a = b"
proof -
  have "Some (a * msPerDay) = Some (b * msPerDay)"
    using Date_parse_date_only [OF assms(1)] Date_parse_date_only [OF assms(2)] assms(3)
    by metis
  then have "a * msPerDay = b * msPerDay" by blast
  moreover have "msPerDay \<noteq> 0" unfolding msPerDay_def by (rule numeral_neq_zero)
  ultimately show ?thesis by (rule mult_right_cancel [THEN iffD1, rotated])
qed

lemma Day_bounds:
  assumes "\<bar>t\<bar> \<le> 8640000000000000"
  shows "\<bar>Day t\<bar> \<le> 100000000"
proof -
  have "msPerDay * Day t \<le> t" "t < msPerDay * Day t + msPerDay"
    unfolding Day_def using div_bounds [of msPerDay t] by (simp_all add: msPerDay_def)
  then show ?thesis using assms unfolding msPerDay_def by linarith
qed

lemma formatDate_DateObj: "formatDate (DateObj (Some t)) = Inr (iso_date (Day t))"
  by (simp add: formatDate_def toISOString_def split_T_0_iso_date)

lemma iso_date_not_Nil: "iso_date n \<noteq> []"
  by (cases "CivilFromDay n") (simp add: iso_date_def)

section \<open>getMonday and getNextMonday on well-formed dates\<close>

lemma TimeClip_day: "\<bar>n\<bar> \<le> 100000000 \<Longrightarrow> TimeClip (n * msPerDay) = Some (n * msPerDay)"
  by (simp add: TimeClip_def msPerDay_def abs_mult)

lemma TimeClip_day_out: "\<not> \<bar>n\<bar> \<le> 100000000 \<Longrightarrow> TimeClip (n * msPerDay) = None"
  by (simp add: TimeClip_def msPerDay_def abs_mult)

lemma Day_midnight: "Day (n * msPerDay) = n"
  by (simp add: Day_def msPerDay_def)

lemma daysToSubtract_eq:
  "(if (n + 4) mod 7 = 0 then 6 else (n + 4) mod 7 - 1) = (n + 3) mod (7::int)"
  by presburger

lemma monday_from_midnight:
  assumes "\<bar>n\<bar> \<le> 100000000"
  shows "formatDate (DateObj (setUTCDate (n * msPerDay) (getUTCDate (n * msPerDay) -
            (if getUTCDay (n * msPerDay) = 0 then 6 else getUTCDay (n * msPerDay) - 1))))
       = (if - 100000000 \<le> n - (n + 3) mod 7 then Inr (iso_date (n - (n + 3) mod 7))
          else Inl RangeError)"
proof -
  define k where "k = (n + 3) mod 7"
  have k: "0 \<le> k" "k < 7" unfolding k_def by simp_all
  have s: "setUTCDate (n * msPerDay) (getUTCDate (n * msPerDay) - k) = TimeClip ((n - k) * msPerDay)"
    using setUTCDate_shift [of "n * msPerDay" "- k"] by (simp add: algebra_simps)
  have l: "formatDate (DateObj (setUTCDate (n * msPerDay) (getUTCDate (n * msPerDay) -
            (if getUTCDay (n * msPerDay) = 0 then 6 else getUTCDay (n * msPerDay) - 1))))
          = formatDate (DateObj (TimeClip ((n - k) * msPerDay)))"
    unfolding getUTCDay_def Day_midnight daysToSubtract_eq k_def [symmetric] s by (rule refl)
  show ?thesis
  proof (cases "- 100000000 \<le> n - k")
    case True
    then have "\<bar>n - k\<bar> \<le> 100000000" using assms k by linarith
    then show ?thesis
      unfolding l k_def [symmetric] using True
      by (simp add: TimeClip_day formatDate_DateObj Day_midnight)
  next
    case False
    then have "\<not> \<bar>n - k\<bar> \<le> 100000000" by linarith
    then show ?thesis
      unfolding l k_def [symmetric] using False
      by (simp add: TimeClip_day_out formatDate_def toISOString_def)
  qed
qed

lemma getMonday_DateObj:
  assumes "\<bar>t\<bar> \<le> 8640000000000000"
  shows "getMonday now (DateObj (Some t))
       = (if - 100000000 \<le> Day t - (Day t + 3) mod 7 then Inr (iso_date (Day t - (Day t + 3) mod 7))
          else Inl RangeError)"
proof -
  have b: "\<bar>Day t\<bar> \<le> 100000000" using Day_bounds [OF assms] .
  show ?thesis
    unfolding getMonday_def
    using monday_from_midnight [OF b]
    by (simp add: formatDate_DateObj Date_parse_midnight [OF b] Let_def)
qed

lemma getMonday_Str:
  assumes "s \<noteq> []" "split_T_0 s = iso_date n" "\<bar>n\<bar> \<le> 100000000"
  shows "getMonday now (Str s)
       = (if - 100000000 \<le> n - (n + 3) mod 7 then Inr (iso_date (n - (n + 3) mod 7))
          else Inl RangeError)"
  unfolding getMonday_def
  using monday_from_midnight [OF assms(3)] assms(1)
  by (simp add: formatDate_def [of "Str s"] assms(2) Date_parse_midnight [OF assms(3)] Let_def)

lemma getNextMonday_iso_date:
  assumes "\<bar>n\<bar> \<le> 100000000"
  shows "getNextMonday (iso_date n)
       = (if n + 7 \<le> 100000000 then Inr (iso_date (n + 7)) else Inl RangeError)"
proof -
  have s: "setUTCDate (n * msPerDay) (getUTCDate (n * msPerDay) + 7) = TimeClip ((n + 7) * msPerDay)"
    using setUTCDate_shift [of "n * msPerDay" 7] by (simp add: algebra_simps)
  show ?thesis
  proof (cases "n + 7 \<le> 100000000")
    case True
    then have "\<bar>n + 7\<bar> \<le> 100000000" using assms by linarith
    then show ?thesis
      unfolding getNextMonday_def using True
      by (simp add: Date_parse_midnight [OF assms] s TimeClip_day formatDate_DateObj Day_midnight)
  next
    case False
    then have "\<not> \<bar>n + 7\<bar> \<le> 100000000" by linarith
    then show ?thesis
      unfolding getNextMonday_def using False
      by (simp add: Date_parse_midnight [OF assms] s TimeClip_day_out formatDate_def toISOString_def)
  qed
qed




section \<open>The aggregator of stars.js\<close>

lemma obj_set_map_inj:
  assumes "inj_on g (insert m (fst ` set ws))"
  shows "obj_set (map (\<lambda>(n, v). (g n, v)) ws) (g m) x = map (\<lambda>(n, v). (g n, v)) (obj_set ws m x)"
  using assms
proof (induction ws)
  case Nil
  show ?case by simp
next
  case (Cons a ws)
  obtain n v where a: "a = (n, v)" by (cases a)
  have i: "inj_on g (insert m (fst ` set ws))"
    using Cons.prems by (auto simp: inj_on_def)
  have e: "g n = g m \<longleftrightarrow> n = m"
    using Cons.prems by (auto simp: inj_on_def a)
  show ?case using Cons.IH [OF i] by (simp add: a e)
qed

lemma obj_set_good:
  assumes "good ws i b" "b \<le> m"
  shows "good (obj_set ws m (Suc i)) (Suc i) m"
  using assms
proof (induction ws)
  case Nil
  show ?case by (simp add: good_def)
next
  case (Cons a ws)
  obtain n v where a: "a = (n, v)" by (cases a)
  have g: "good ws i b" using Cons.prems(1) by (simp add: good_def)
  note IH = Cons.IH [OF g Cons.prems(2)]
  have nb: "n \<le> b" "v \<le> i" using Cons.prems(1) by (simp_all add: good_def a)
  have rest: "\<forall>q\<in>set ws. n < fst q \<and> v < snd q" using Cons.prems(1) by (simp add: good_def a)
  show ?case
  proof (cases "n = m")
    case True
    have "ws = []"
    proof (rule ccontr)
      assume "ws \<noteq> []"
      then obtain q where q: "q \<in> set ws" by (cases ws) auto
      then have "n < fst q" using rest by blast
      moreover have "fst q \<le> b" using g q by (simp add: good_def list_all_iff)
      ultimately show False using True Cons.prems(2) by linarith
    qed
    then show ?thesis using True by (simp add: a good_def)
  next
    case False
    have s: "obj_set (a # ws) m (Suc i) = a # obj_set ws m (Suc i)" using False by (simp add: a)
    have "\<forall>q\<in>set (obj_set ws m (Suc i)). n < fst q \<and> v < snd q"
    proof
      fix q assume "q \<in> set (obj_set ws m (Suc i))"
      then have "q \<in> set ws \<or> q = (m, Suc i)"
        by (induction ws) (auto split: if_splits)
      then show "n < fst q \<and> v < snd q"
        using rest nb False Cons.prems(2) by auto
    qed
    moreover have "n \<le> m" "v \<le> Suc i" using nb Cons.prems(2) by linarith+
    ultimately show ?thesis using IH unfolding s by (simp add: good_def a)
  qed
qed

lemma monday_day_mono: "a \<le> b \<Longrightarrow> monday_day a \<le> monday_day b"
  unfolding monday_day_def by presburger

lemma monday_day_bounds: "monday_day n \<le> n" "n - 6 \<le> monday_day n"
  unfolding monday_day_def by presburger+

lemma Day_mono: "a \<le> b \<Longrightarrow> Day a \<le> Day b"
  unfolding Day_def msPerDay_def by (rule zdiv_mono1) simp_all

lemma week_loop_good:
  "sorted ms \<Longrightarrow> good ws i b \<Longrightarrow> list_all (\<lambda>m. b \<le> m) ms \<Longrightarrow>
   good (week_loop ms i ws) (i + length ms) (if ms = [] then b else last ms)"
proof (induction ms arbitrary: ws i b)
  case Nil
  then show ?case by simp
next
  case (Cons m ms)
  have g: "good (obj_set ws m (Suc i)) (Suc i) m"
    using obj_set_good [OF Cons.prems(2)] Cons.prems(3) by simp
  have l: "list_all (\<lambda>k. m \<le> k) ms" using Cons.prems(1) by (simp add: list_all_iff)
  have s: "sorted ms" using Cons.prems(1) by simp
  show ?case using Cons.IH [OF s g l] by simp
qed

lemma obj_set_last:
  "good ws i b \<Longrightarrow> b \<le> m \<Longrightarrow> last (obj_set ws m v) = (m, v)"
proof (induction ws)
  case Nil
  show ?case by simp
next
  case (Cons a ws)
  obtain n x where a: "a = (n, x)" by (cases a)
  have g: "good ws i b" using Cons.prems(1) by (simp add: good_def)
  have rest: "\<forall>q\<in>set ws. n < fst q" using Cons.prems(1) by (simp add: good_def a)
  show ?case
  proof (cases "n = m")
    case True
    have "ws = []"
    proof (rule ccontr)
      assume "ws \<noteq> []"
      then obtain q where q: "q \<in> set ws" by (cases ws) auto
      then have "n < fst q" using rest by blast
      moreover have "fst q \<le> b" using g q by (simp add: good_def list_all_iff)
      ultimately show False using True Cons.prems(2) by linarith
    qed
    then show ?thesis using True by (simp add: a)
  next
    case False
    have "obj_set ws m v \<noteq> []" by (cases ws) (auto split: if_splits)
    then show ?thesis using False Cons.IH [OF g Cons.prems(2)] by (simp add: a)
  qed
qed

lemma week_loop_last:
  "sorted ms \<Longrightarrow> ms \<noteq> [] \<Longrightarrow> good ws i b \<Longrightarrow> list_all (\<lambda>m. b \<le> m) ms \<Longrightarrow>
   last (week_loop ms i ws) = (last ms, i + length ms)"
proof (induction ms arbitrary: ws i b)
  case Nil
  then show ?case by simp
next
  case (Cons m ms)
  have bm: "b \<le> m" using Cons.prems(4) by simp
  have g: "good (obj_set ws m (Suc i)) (Suc i) m"
    using obj_set_good [OF Cons.prems(3) bm] .
  have l: "list_all (\<lambda>k. m \<le> k) ms" using Cons.prems(1) by (simp add: list_all_iff)
  have s: "sorted ms" using Cons.prems(1) by simp
  show ?case
  proof (cases "ms = []")
    case True
    then show ?thesis using obj_set_last [OF Cons.prems(3) bm] by simp
  next
    case False
    then show ?thesis using Cons.IH [OF s False g l] by simp
  qed
qed

lemma obj_set_mem: "q \<in> set (obj_set ws m v) \<Longrightarrow> q \<in> set ws \<or> q = (m, v)"
  by (induction ws) (auto split: if_splits)

lemma obj_set_keys: "fst ` set (obj_set ws m v) \<subseteq> insert m (fst ` set ws)"
  using obj_set_mem [of _ ws m v] by force

lemma week_loop_keys:
  "fst ` set (week_loop ms i ws) \<subseteq> fst ` set ws \<union> set ms"
proof (induction ms arbitrary: ws i)
  case Nil
  show ?case by simp
next
  case (Cons m ms)
  have "fst ` set (obj_set ws m (Suc i)) \<subseteq> insert m (fst ` set ws)"
    by (rule obj_set_keys)
  moreover have "fst ` set (week_loop ms (Suc i) (obj_set ws m (Suc i)))
      \<subseteq> fst ` set (obj_set ws m (Suc i)) \<union> set ms" by (rule Cons.IH)
  ultimately have "fst ` set (week_loop ms (Suc i) (obj_set ws m (Suc i)))
      \<subseteq> insert m (fst ` set ws) \<union> set ms" by blast
  then show ?case by simp
qed

lemma week_of_range: "in_week_range x \<Longrightarrow> \<bar>week_of x\<bar> \<le> 100000000"
proof -
  assume a: "in_week_range x"
  then obtain t where t: "tv x = Some t" "\<bar>t\<bar> \<le> 8640000000000000" "- 100000000 \<le> monday_day (Day t)"
    by (auto simp: in_week_range_def split: option.splits)
  have "\<bar>Day t\<bar> \<le> 100000000" using Day_bounds [OF t(2)] .
  then show ?thesis using monday_day_bounds [of "Day t"] t(3)
    unfolding week_of_def getTime_def t(1) by simp
qed

lemma getMonday_in_week_range:
  "in_week_range x \<Longrightarrow> getMonday now (DateObj (tv x)) = Inr (iso_date (week_of x))"
proof -
  assume a: "in_week_range x"
  then obtain t where t: "tv x = Some t" "\<bar>t\<bar> \<le> 8640000000000000" "- 100000000 \<le> monday_day (Day t)"
    by (auto simp: in_week_range_def split: option.splits)
  show ?thesis
    using getMonday_DateObj [OF t(2), of now] t(3)
    by (simp add: t(1) week_of_def getTime_def monday_day_def)
qed

lemma getMonday_Inr_in_week_range:
  assumes "tv x = Some t" "\<bar>t\<bar> \<le> 8640000000000000" "getMonday now (DateObj (tv x)) = Inr s"
  shows "in_week_range x"
  using getMonday_DateObj [OF assms(2), of now] assms
  by (auto simp: in_week_range_def monday_day_def split: if_splits)

lemma cumulative_loop_week_loop:
  assumes "list_all in_week_range xs" "list_all (\<lambda>p. \<bar>fst p\<bar> \<le> 100000000) ws"
  shows "cumulative_loop now xs i (map entry ws) = Inr (map entry (week_loop (map week_of xs) i ws))"
  using assms
proof (induction xs arbitrary: i ws)
  case Nil
  show ?case by simp
next
  case (Cons x xs)
  have x: "in_week_range x" and xs: "list_all in_week_range xs" using Cons.prems(1) by simp_all
  have r: "\<bar>week_of x\<bar> \<le> 100000000" using week_of_range [OF x] .
  have inj: "inj_on iso_date (insert (week_of x) (fst ` set ws))"
  proof (rule inj_onI)
    fix a b assume "a \<in> insert (week_of x) (fst ` set ws)" "b \<in> insert (week_of x) (fst ` set ws)"
      and e: "iso_date a = iso_date b"
    then have "\<bar>a\<bar> \<le> 100000000" "\<bar>b\<bar> \<le> 100000000"
      using r Cons.prems(2) by (auto simp: list_all_iff)
    then show "a = b" using e by (rule iso_date_inj)
  qed
  have e: "obj_set (map entry ws) (iso_date (week_of x)) (Suc i) = map entry (obj_set ws (week_of x) (Suc i))"
    unfolding entry_def by (rule obj_set_map_inj [OF inj])
  have k: "list_all (\<lambda>p. \<bar>fst p\<bar> \<le> 100000000) (obj_set ws (week_of x) (Suc i))"
    unfolding list_all_iff
  proof
    fix q assume "q \<in> set (obj_set ws (week_of x) (Suc i))"
    then have "q \<in> set ws \<or> q = (week_of x, Suc i)" by (rule obj_set_mem)
    then show "\<bar>fst q\<bar> \<le> 100000000"
      using r Cons.prems(2) by (auto simp: list_all_iff)
  qed
  show ?case
    using Cons.IH [OF xs k, of "Suc i"]
    by (simp add: getMonday_in_week_range [OF x] e)
qed

lemma cumulative_loop_Inr:
  "cumulative_loop now xs i acc = Inr r \<Longrightarrow> x \<in> set xs \<Longrightarrow> \<exists>s. getMonday now (DateObj (tv x)) = Inr s"
proof (induction xs arbitrary: i acc)
  case Nil
  then show ?case by simp
next
  case (Cons y ys)
  obtain s where s: "getMonday now (DateObj (tv y)) = Inr s"
    using Cons.prems(1) by (cases "getMonday now (DateObj (tv y))") simp_all
  show ?case
  proof (cases "x = y")
    case True
    then show ?thesis using s by blast
  next
    case False
    then have "x \<in> set ys" using Cons.prems(2) by simp
    moreover have "cumulative_loop now ys (i + 1) (obj_set acc s (i + 1)) = Inr r"
      using Cons.prems(1) by (simp add: s)
    ultimately show ?thesis by (rule Cons.IH [rotated])
  qed
qed

lemma filteredStargazers_set:
  "x \<in> set (filteredStargazers stargazers ub) \<longleftrightarrow> x \<in> set stargazers \<and> date_lt (tv x) ub"
  by (simp add: filteredStargazers_def)

lemma filteredStargazers_sorted: "sorted (map getTime (filteredStargazers stargazers ub))"
  by (simp add: filteredStargazers_def)

lemma week_of_mono: "getTime x \<le> getTime y \<Longrightarrow> week_of x \<le> week_of y"
  unfolding week_of_def by (intro monday_day_mono Day_mono)

lemma sorted_map_week_of: "sorted (map getTime xs) \<Longrightarrow> sorted (map week_of xs)"
  by (induction xs) (auto intro: week_of_mono)

lemma good_Nil: "good [] 0 b"
  by (simp add: good_def)

lemma generateCumulativeData_char:
  assumes "list_all valid_date stargazers"
    and "generateCumulativeData now stargazers finalWeek = Inr kvs"
  shows "\<exists>ub. list_all in_week_range (filteredStargazers stargazers ub) \<and>
           kvs = map entry (week_loop (map week_of (filteredStargazers stargazers ub)) 0 [])"
proof (cases "stargazers = []")
  case True
  then have "kvs = []" using assms(2) by (simp add: generateCumulativeData_def)
  then show ?thesis using True by (simp add: filteredStargazers_def)
next
  case False
  obtain fm where fm: "getNextMonday finalWeek = Inr fm"
    using assms(2) False by (cases "getNextMonday finalWeek") (simp_all add: generateCumulativeData_def)
  define ub where "ub = Date_parse (fm @ ''T00:00:00.000Z'')"
  define filtered where "filtered = filteredStargazers stargazers ub"
  have r: "(if filtered = [] then Inr [] else cumulative_loop now filtered 0 []) = Inr kvs"
    using assms(2) False unfolding generateCumulativeData_def fm Let_def ub_def filtered_def
    by (simp split: if_splits)
  show ?thesis
  proof (cases "filtered = []")
    case True
    then have "kvs = []" using r by simp
    then show ?thesis using True unfolding filtered_def by (intro exI [of _ ub]) simp
  next
    case ne: False
    then have c: "cumulative_loop now filtered 0 [] = Inr kvs" using r by simp
    have w: "list_all in_week_range filtered"
      unfolding list_all_iff
    proof
      fix x assume x: "x \<in> set filtered"
      then have m: "x \<in> set stargazers" and l: "date_lt (tv x) ub"
        unfolding filtered_def by (simp_all add: filteredStargazers_set)
      obtain t where t: "tv x = Some t" using l by (cases "tv x") (simp_all add: date_lt_def)
      have v: "\<bar>t\<bar> \<le> 8640000000000000"
        using assms(1) m t by (auto simp: list_all_iff valid_date_def)
      obtain s where "getMonday now (DateObj (tv x)) = Inr s"
        using cumulative_loop_Inr [OF c x] by blast
      then show "in_week_range x" using getMonday_Inr_in_week_range [OF t v] by blast
    qed
    have "cumulative_loop now filtered 0 (map entry []) = Inr (map entry (week_loop (map week_of filtered) 0 []))"
      by (rule cumulative_loop_week_loop [OF w]) simp
    then have "kvs = map entry (week_loop (map week_of filtered) 0 [])" using c by simp
    then show ?thesis using w unfolding filtered_def by blast
  qed
qed

lemma week_loop_sorted_entries:
  assumes "list_all in_week_range xs" "sorted (map getTime xs)"
  shows "sorted_wrt (\<lambda>p q. date_lt (Date_parse (fst p)) (Date_parse (fst q)) \<and> snd p < snd q)
           (map entry (week_loop (map week_of xs) 0 []))"
proof -
  define ws where "ws = week_loop (map week_of xs) 0 []"
  have s: "sorted (map week_of xs)" using assms(2) by (rule sorted_map_week_of)
  have "list_all (\<lambda>m. (if xs = [] then 0 else week_of (hd xs)) \<le> m) (map week_of xs)"
    using s by (cases xs) (auto simp: list_all_iff)
  from week_loop_good [OF s good_Nil this]
  have g: "sorted_wrt (\<lambda>p q. fst p < fst q \<and> snd p < snd q) ws"
    unfolding ws_def good_def by simp
  have k: "\<bar>fst p\<bar> \<le> 100000000" if "p \<in> set ws" for p
  proof -
    have "fst p \<in> set (map week_of xs)"
      using week_loop_keys [of "map week_of xs" 0 "[]"] that unfolding ws_def by auto
    then show ?thesis using assms(1) week_of_range by (auto simp: list_all_iff)
  qed
  have "sorted_wrt (\<lambda>p q. date_lt (Date_parse (fst (entry p))) (Date_parse (fst (entry q)))
          \<and> snd (entry p) < snd (entry q)) ws"
  proof (rule sorted_wrt_mono_rel [OF _ g])
    fix p q assume p: "p \<in> set ws" and q: "q \<in> set ws" and l: "fst p < fst q \<and> snd p < snd q"
    have "Date_parse (iso_date (fst p)) = Some (fst p * msPerDay)"
      "Date_parse (iso_date (fst q)) = Some (fst q * msPerDay)"
      using k [OF p] k [OF q] by (simp_all add: Date_parse_date_only)
    then show "date_lt (Date_parse (fst (entry p))) (Date_parse (fst (entry q)))
          \<and> snd (entry p) < snd (entry q)"
      using l by (simp add: entry_def case_prod_unfold date_lt_def msPerDay_def)
  qed
  then show ?thesis unfolding ws_def by (simp add: sorted_wrt_map)
qed

lemma generateCumulativeData_increasing:
  assumes "list_all valid_date stargazers"
    and "generateCumulativeData now stargazers finalWeek = Inr kvs"
  shows "sorted_wrt (\<lambda>p q. date_lt (Date_parse (fst p)) (Date_parse (fst q)) \<and> snd p < snd q) kvs"
proof -
  obtain ub where "list_all in_week_range (filteredStargazers stargazers ub)"
    and "kvs = map entry (week_loop (map week_of (filteredStargazers stargazers ub)) 0 [])"
    using generateCumulativeData_char [OF assms] by blast
  then show ?thesis
    using week_loop_sorted_entries [OF _ filteredStargazers_sorted] by simp
qed

lemma well_formed_in_week_range:
  assumes "well_formed_date x" "tv x = Some t"
  shows "in_week_range x"
proof -
  have b: "- 8639999481600000 \<le> t" "t \<le> 8640000000000000"
    using assms by (simp_all add: well_formed_date_def)
  have "t < msPerDay * Day t + msPerDay"
    unfolding Day_def using div_bounds [of msPerDay t] by (simp add: msPerDay_def)
  then have "- 99999994 \<le> Day t" using b(1) unfolding msPerDay_def by linarith
  then have "- 100000000 \<le> monday_day (Day t)" using monday_day_bounds(2) [of "Day t"] by linarith
  then show ?thesis using b by (simp add: in_week_range_def assms(2))
qed

lemma upperBound_of_week:
  assumes "\<bar>n\<bar> \<le> 100000000" "n + 7 \<le> 100000000"
  shows "getNextMonday (iso_date n) = Inr (iso_date (n + 7))"
    and "Date_parse (iso_date (n + 7) @ ''T00:00:00.000Z'') = Some ((n + 7) * msPerDay)"
proof -
  have b: "\<bar>n + 7\<bar> \<le> 100000000" using assms by linarith
  show "getNextMonday (iso_date n) = Inr (iso_date (n + 7))"
    using getNextMonday_iso_date [OF assms(1)] assms(2) by simp
  show "Date_parse (iso_date (n + 7) @ ''T00:00:00.000Z'') = Some ((n + 7) * msPerDay)"
    using Date_parse_midnight [OF b] .
qed

lemma generateCumulativeData_week:
  assumes "\<bar>n\<bar> \<le> 100000000" "n + 7 \<le> 100000000"
  shows "generateCumulativeData now stargazers (iso_date n) =
     (if filteredStargazers stargazers (Some ((n + 7) * msPerDay)) = [] then Inr []
      else cumulative_loop now (filteredStargazers stargazers (Some ((n + 7) * msPerDay))) 0 [])"
  unfolding generateCumulativeData_def Let_def
  by (simp add: upperBound_of_week [OF assms] filteredStargazers_def)

lemma sorted_le_last: "sorted xs \<Longrightarrow> x \<in> set xs \<Longrightarrow> x \<le> last xs"
  by (induction xs) (auto split: if_splits)

lemma obj_set_not_Nil: "obj_set ws m v \<noteq> []"
  by (cases ws) (auto split: if_splits)

lemma week_loop_not_Nil: "ws \<noteq> [] \<Longrightarrow> week_loop ms k ws \<noteq> []"
  by (induction ms arbitrary: k ws) (simp_all add: obj_set_not_Nil)

lemma window_half_open_parts:
  assumes "\<bar>n\<bar> \<le> 100000000" "n + 7 \<le> 100000000"
    and "list_all well_formed_date (xs @ ys)"
  shows "generateCumulativeData now (xs @ Date i (Some ((n + 7) * msPerDay)) # ys) (iso_date n)
       = generateCumulativeData now (xs @ ys) (iso_date n)"
    and "\<exists>kvs. generateCumulativeData now (xs @ Date j (Some ((n + 7) * msPerDay - 1)) # ys) (iso_date n)
           = Inr kvs \<and> kvs \<noteq> [] \<and>
         last kvs = (iso_date (monday_day (n + 6)),
           length (filter (\<lambda>star. date_lt (tv star) (Some ((n + 7) * msPerDay)))
                     (xs @ Date j (Some ((n + 7) * msPerDay - 1)) # ys)))"
proof -
  define ub where "ub = (n + 7) * msPerDay"
  show "generateCumulativeData now (xs @ Date i (Some ((n + 7) * msPerDay)) # ys) (iso_date n)
       = generateCumulativeData now (xs @ ys) (iso_date n)"
    unfolding generateCumulativeData_week [OF assms(1,2)]
    by (simp add: filteredStargazers_def date_lt_def)
  define e where "e = Date j (Some (ub - 1))"
  define filtered where "filtered = filteredStargazers (xs @ e # ys) (Some ub)"
  have em: "e \<in> set filtered"
    unfolding filtered_def by (simp add: filteredStargazers_set e_def date_lt_def)
  then have ne: "filtered \<noteq> []" by auto
  have de: "Day (ub - 1) = n + 6"
  proof -
    have "ub - 1 = (n + 6) * msPerDay + (msPerDay - 1)" unfolding ub_def by (simp add: algebra_simps)
    then show ?thesis unfolding Day_def msPerDay_def by simp
  qed
  have we: "week_of e = monday_day (n + 6)"
    by (simp add: week_of_def getTime_def e_def de)
  have w: "list_all in_week_range filtered"
    unfolding list_all_iff
  proof
    fix x assume x: "x \<in> set filtered"
    then have m: "x \<in> set (xs @ e # ys)" and l: "date_lt (tv x) (Some ub)"
      unfolding filtered_def by (simp_all add: filteredStargazers_set)
    obtain t where t: "tv x = Some t" using l by (cases "tv x") (simp_all add: date_lt_def)
    show "in_week_range x"
    proof (cases "x = e")
      case True
      have "ub - 1 = 86400000 * n + 604799999"
        unfolding ub_def msPerDay_def by (simp add: algebra_simps)
      then have "\<bar>ub - 1\<bar> \<le> 8640000000000000" using assms(1,2) by linarith
      moreover have "- 100000000 \<le> monday_day (n + 6)"
        using monday_day_bounds(2) [of "n + 6"] assms(1) by linarith
      ultimately show ?thesis unfolding True by (simp add: in_week_range_def e_def de)
    next
      case False
      then have "x \<in> set (xs @ ys)" using m by auto
      then have "well_formed_date x" using assms(3) by (simp add: list_all_iff)
      then show ?thesis using t by (rule well_formed_in_week_range)
    qed
  qed
  have s: "sorted (map week_of filtered)"
    unfolding filtered_def by (intro sorted_map_week_of filteredStargazers_sorted)
  have c: "cumulative_loop now filtered 0 (map entry []) = Inr (map entry (week_loop (map week_of filtered) 0 []))"
    by (rule cumulative_loop_week_loop [OF w]) simp
  have la: "list_all (\<lambda>m. (if filtered = [] then 0 else week_of (hd filtered)) \<le> m) (map week_of filtered)"
    using s by (cases filtered) (auto simp: list_all_iff)
  have wl: "last (week_loop (map week_of filtered) 0 []) = (last (map week_of filtered), length filtered)"
    using week_loop_last [OF s _ good_Nil la] ne by simp
  have wne: "week_loop (map week_of filtered) 0 [] \<noteq> []"
  proof -
    obtain x xs' where f: "filtered = x # xs'" using ne by (cases filtered) auto
    have "week_loop (map week_of xs') (Suc 0) (obj_set [] (week_of x) (Suc 0)) \<noteq> []"
      by (rule week_loop_not_Nil) simp
    then show ?thesis unfolding f by simp
  qed
  have lw: "last (map week_of filtered) = monday_day (n + 6)"
  proof (rule antisym)
    have "last (map week_of filtered) \<in> set (map week_of filtered)"
      using ne by (intro last_in_set) simp
    then obtain x where x: "x \<in> set filtered" and lx: "last (map week_of filtered) = week_of x" by auto
    have "date_lt (tv x) (Some ub)" using x unfolding filtered_def by (simp add: filteredStargazers_set)
    then have "getTime x \<le> ub - 1" by (cases "tv x") (simp_all add: date_lt_def getTime_def)
    then have "week_of x \<le> monday_day (Day (ub - 1))"
      unfolding week_of_def by (intro monday_day_mono Day_mono)
    then show "last (map week_of filtered) \<le> monday_day (n + 6)" by (simp add: lx de)
    have "week_of e \<in> set (map week_of filtered)" using em by simp
    then have "week_of e \<le> last (map week_of filtered)" using s by (intro sorted_le_last)
    then show "monday_day (n + 6) \<le> last (map week_of filtered)" by (simp add: we)
  qed
  have len: "length filtered = length (filter (\<lambda>star. date_lt (tv star) (Some ub)) (xs @ e # ys))"
    by (simp add: filtered_def filteredStargazers_def)
  have "generateCumulativeData now (xs @ e # ys) (iso_date n)
      = Inr (map entry (week_loop (map week_of filtered) 0 []))"
    unfolding generateCumulativeData_week [OF assms(1,2)] ub_def [symmetric] filtered_def [symmetric]
    using ne c by simp
  moreover have "last (map entry (week_loop (map week_of filtered) 0 []))
      = (iso_date (monday_day (n + 6)), length filtered)"
    using wne by (simp add: last_map wl lw entry_def)
  ultimately show "\<exists>kvs. generateCumulativeData now (xs @ Date j (Some ((n + 7) * msPerDay - 1)) # ys) (iso_date n)
           = Inr kvs \<and> kvs \<noteq> [] \<and>
         last kvs = (iso_date (monday_day (n + 6)),
           length (filter (\<lambda>star. date_lt (tv star) (Some ((n + 7) * msPerDay)))
                     (xs @ Date j (Some ((n + 7) * msPerDay - 1)) # ys)))"
    using wne unfolding len e_def ub_def by simp
qed

text \<open>
  Claim C6. The filtering window is half-open. With the reference week \<open>iso_date n\<close>,
  the upper bound is the next Monday at 00:00:00Z, \<open>(n + 7) * msPerDay\<close>. An event at
  the upper bound changes nothing in the series. An event one millisecond before it is
  counted: the series ends with the week of that event, and the value stored there is the
  number of all events before the upper bound, that event among them.
\<close>

theorem window_is_half_open:
  assumes "\<bar>n\<bar> \<le> 100000000" "n + 7 \<le> 100000000"
    and "list_all well_formed_date (xs @ ys)"
  shows "getNextMonday (iso_date n) = Inr (iso_date (n + 7)) \<and>
         Date_parse (iso_date (n + 7) @ ''T00:00:00.000Z'') = Some ((n + 7) * msPerDay) \<and>
         generateCumulativeData now (xs @ Date i (Some ((n + 7) * msPerDay)) # ys) (iso_date n)
           = generateCumulativeData now (xs @ ys) (iso_date n) \<and>
         (\<exists>kvs. generateCumulativeData now (xs @ Date j (Some ((n + 7) * msPerDay - 1)) # ys) (iso_date n)
                  = Inr kvs \<and> kvs \<noteq> [] \<and>
                last kvs = (iso_date (monday_day (n + 6)),
                  length (filter (\<lambda>star. date_lt (tv star) (Some ((n + 7) * msPerDay)))
                            (xs @ Date j (Some ((n + 7) * msPerDay - 1)) # ys))))"
  using upperBound_of_week [OF assms(1,2)] window_half_open_parts [OF assms] by blast

theorem window_is_half_open_witness:
  "iso_date 20346 = ''2025-09-15'' \<and> iso_date (monday_day (20346 + 6)) = ''2025-09-15'' \<and>
   getNextMonday (iso_date 20346) = Inr (iso_date (20346 + 7)) \<and>
   Date_parse (iso_date (20346 + 7) @ ''T00:00:00.000Z'') = Some ((20346 + 7) * msPerDay) \<and>
   generateCumulativeData 0
       ([Date 0 (Some 1757462400000)] @ Date 1 (Some ((20346 + 7) * msPerDay)) # []) (iso_date 20346)
     = generateCumulativeData 0 ([Date 0 (Some 1757462400000)] @ []) (iso_date 20346) \<and>
   (\<exists>kvs. generateCumulativeData 0
              ([Date 0 (Some 1757462400000)] @ Date 1 (Some ((20346 + 7) * msPerDay - 1)) # [])
              (iso_date 20346) = Inr kvs \<and> kvs \<noteq> [] \<and>
          last kvs = (iso_date (monday_day (20346 + 6)),
            length (filter (\<lambda>star. date_lt (tv star) (Some ((20346 + 7) * msPerDay)))
                      ([Date 0 (Some 1757462400000)] @
                       Date 1 (Some ((20346 + 7) * msPerDay - 1)) # []))))"
proof -
  have d: "iso_date 20346 = ''2025-09-15''" "iso_date (monday_day (20346 + 6)) = ''2025-09-15''"
    by code_simp+
  have h: "\<bar>20346 :: int\<bar> \<le> 100000000" "(20346 :: int) + 7 \<le> 100000000"
    "list_all well_formed_date ([Date 0 (Some 1757462400000)] @ [])"
    by (simp_all add: well_formed_date_def)
  show ?thesis
    using d window_is_half_open [OF h, of 0 1 1] by blast
qed


section \<open>The merger\<close>








section \<open>The arrays of the aggregator\<close>

text \<open>
  Claim C10. \<open>generateCumulativeData\<close> does not change its input: in both revisions, the
  store after the call holds every array it held before, unchanged, the caller's array
  among them (the sorted copy is a new array at the end of the store), and the result is
  that of the function on the elements of the caller's array.
\<close>

theorem input_array_unchanged:
  assumes "stargazers < length h"
  shows "take (length h) (fst (generateCumulativeData_store now h stargazers finalWeek)) = h \<and>
         fst (generateCumulativeData_store now h stargazers finalWeek) ! stargazers = h ! stargazers \<and>
         snd (generateCumulativeData_store now h stargazers finalWeek)
           = generateCumulativeData now (h ! stargazers) finalWeek \<and>
         take (length h) (fst (generateCumulativeData_charts_store tz now h stargazers finalWeek)) = h \<and>
         fst (generateCumulativeData_charts_store tz now h stargazers finalWeek) ! stargazers
           = h ! stargazers \<and>
         snd (generateCumulativeData_charts_store tz now h stargazers finalWeek)
           = generateCumulativeData_charts tz now (h ! stargazers) finalWeek"
proof -
  have a: "generateCumulativeData_store now h stargazers finalWeek
      = (if h ! stargazers = [] then (h, Inr [])
         else (case getNextMonday finalWeek of
            Inl e \<Rightarrow> (h, Inl e)
          | Inr finalMonday \<Rightarrow>
              (h @ [filteredStargazers (h ! stargazers) (Date_parse (finalMonday @ ''T00:00:00.000Z''))],
               if filteredStargazers (h ! stargazers) (Date_parse (finalMonday @ ''T00:00:00.000Z'')) = []
               then Inr []
               else cumulative_loop now
                      (filteredStargazers (h ! stargazers) (Date_parse (finalMonday @ ''T00:00:00.000Z'')))
                      0 [])))"
    unfolding generateCumulativeData_store_def Let_def
    by (simp add: array_filter_def array_sort_def filteredStargazers_def split: sum.splits)
  have b: "generateCumulativeData_charts_store tz now h stargazers finalWeek
      = (if h ! stargazers = [] then (h, Inr [])
         else (case getNextMonday finalWeek of
            Inl e \<Rightarrow> (h, Inl e)
          | Inr finalMonday \<Rightarrow>
              (h @ [filteredStargazers_charts tz (h ! stargazers)
                      (Date_parse (finalMonday @ ''T00:00:00.000Z''))],
               if filteredStargazers_charts tz (h ! stargazers)
                    (Date_parse (finalMonday @ ''T00:00:00.000Z'')) = []
               then Inr []
               else increment_loop now
                      (filteredStargazers_charts tz (h ! stargazers)
                         (Date_parse (finalMonday @ ''T00:00:00.000Z'')))
                      [])))"
    unfolding generateCumulativeData_charts_store_def Let_def
    by (simp add: array_filter_def array_sort_def filteredStargazers_charts_def split: sum.splits)
  show ?thesis
    unfolding a b generateCumulativeData_def generateCumulativeData_charts_def Let_def
    using assms by (simp add: nth_append split: sum.splits)
qed

theorem input_array_unchanged_witness:
  "take (length [[Date 0 (Some 2), Date 1 (Some 1)]])
     (fst (generateCumulativeData_store 0 [[Date 0 (Some 2), Date 1 (Some 1)]] 0 ''2025-09-15''))
     = [[Date 0 (Some 2), Date 1 (Some 1)]] \<and>
   fst (generateCumulativeData_store 0 [[Date 0 (Some 2), Date 1 (Some 1)]] 0 ''2025-09-15'') ! 0
     = [Date 0 (Some 2), Date 1 (Some 1)] \<and>
   fst (generateCumulativeData_store 0 [[Date 0 (Some 2), Date 1 (Some 1)]] 0 ''2025-09-15'')
     = [[Date 0 (Some 2), Date 1 (Some 1)], [Date 1 (Some 1), Date 0 (Some 2)]]"
proof -
  have h: "0 < length [[Date 0 (Some 2), Date 1 (Some 1)]]" by simp
  have e: "fst (generateCumulativeData_store 0 [[Date 0 (Some 2), Date 1 (Some 1)]] 0 ''2025-09-15'')
     = [[Date 0 (Some 2), Date 1 (Some 1)], [Date 1 (Some 1), Date 0 (Some 2)]]"
    by code_simp
  show ?thesis
    using input_array_unchanged [OF h, of 0 "''2025-09-15''"] e by simp
qed

section \<open>The order of the filtered events\<close>

text \<open>
  In stars.js the filtered events are sorted by time value, and events of equal time value
  keep their order in the input.
\<close>

lemma filteredStargazers_stable:
  "sorted (map getTime (filteredStargazers stargazers upperBound)) \<and>
   set (filteredStargazers stargazers upperBound)
     = {star \<in> set stargazers. date_lt (tv star) upperBound} \<and>
   length (filteredStargazers stargazers upperBound)
     = length (filter (\<lambda>star. date_lt (tv star) upperBound) stargazers) \<and>
   (\<forall>t. filter (\<lambda>star. getTime star = t) (filteredStargazers stargazers upperBound)
      = filter (\<lambda>star. getTime star = t \<and> date_lt (tv star) upperBound) stargazers)"
  by (simp add: filteredStargazers_def sort_key_stable conj_commute)


text \<open>
  Claim C5, in the revision with \<^verbatim>\<open>.sort()\<close> and no comparator: the events are ordered
  by their string forms. In UTC, a Friday (\<^verbatim>\<open>Fri Sep 12 2025 ...\<close>) comes before the
  Wednesday two days earlier (\<^verbatim>\<open>Wed Sep 10 2025 ...\<close>).
\<close>

theorem charts_revision_sorts_by_string:
  "filteredStargazers_charts (Timezone 0 ''Coordinated Universal Time'')
     [Date 0 (Date_parse ''2025-09-10T12:00:00Z''), Date 1 (Date_parse ''2025-09-12T12:00:00Z'')]
     (Date_parse ''2025-09-22T00:00:00.000Z'')
   = [Date 1 (Date_parse ''2025-09-12T12:00:00Z''), Date 0 (Date_parse ''2025-09-10T12:00:00Z'')] \<and>
   filteredStargazers
     [Date 0 (Date_parse ''2025-09-12T12:00:00Z''), Date 1 (Date_parse ''2025-09-10T12:00:00Z'')]
     (Date_parse ''2025-09-22T00:00:00.000Z'')
   = [Date 1 (Date_parse ''2025-09-10T12:00:00Z''), Date 0 (Date_parse ''2025-09-12T12:00:00Z'')]"
  by code_simp

section \<open>The scenario of three events\<close>

text \<open>
  Events at 2025-09-10, 2025-09-10 and 2025-09-18, reference week 2025-09-15: stars.js
  gives \<open>{2025-09-08: 2, 2025-09-15: 3}\<close>.
\<close>

lemma generateCumulativeData_scenario:
  "generateCumulativeData now
     [Date 0 (Date_parse ''2025-09-10''), Date 1 (Date_parse ''2025-09-10''),
      Date 2 (Date_parse ''2025-09-18'')] ''2025-09-15''
   = Inr [(''2025-09-08'', 2), (''2025-09-15'', 3)]"
  by code_simp

text \<open>
  Claim C1, in the revision with charts: the same call stores the number of events of each
  week, 1 for 2025-09-15 (in UTC the later event is first in string order, so its week is
  inserted first; \<open>main\<close> then sorts the entries).
\<close>

theorem charts_revision_scenario:
  "generateCumulativeData_charts (Timezone 0 ''Coordinated Universal Time'') now
     [Date 0 (Date_parse ''2025-09-10''), Date 1 (Date_parse ''2025-09-10''),
      Date 2 (Date_parse ''2025-09-18'')] ''2025-09-15''
   = Inr [(''2025-09-15'', 1), (''2025-09-08'', 2)] \<and>
   sort_entries [(''2025-09-15'', 1), (''2025-09-08'', 2)]
   = [(''2025-09-08'', 2), (''2025-09-15'', 1)]"
  by code_simp

text \<open>
  The whole run of that revision on the scenario: the file holds the counts per week, and
  the chart their running totals 2 and 3.
\<close>

lemma main_charts_scenario:
  "main_charts (Timezone 0 ''Coordinated Universal Time'') 0
     (World [StargazersPage [Some ''2025-09-10T00:00:00Z'', Some ''2025-09-10T00:00:00Z'',
                             Some ''2025-09-18T00:00:00Z''] False None] [] [])
     [''a/b'', ''out'', ''2025-09-15'']
   = (Returned
        ([Repo ''a/b'' [(''2025-09-08'', 2), (''2025-09-15'', 1)] None],
         Charts [''2025-09-08'', ''2025-09-15''] [(''a/b'', [2, 3])]
           [(''a/b'', 3, 2, Some ''2025-09-08'', Some ''2025-09-15'')]),
      World [] [StargazersQuery ''a'' ''b'' 100 None] [])"
  by code_simp

text \<open>
  Claim C2, in the revision with charts: three events in the week of 2025-09-01 and one in
  the week of 2025-09-08 give the values 3 and 1, which decrease in week order.
\<close>

theorem charts_revision_values_decrease:
  "map_sum id sort_entries
     (generateCumulativeData_charts (Timezone 0 ''Coordinated Universal Time'') now
        [Date 0 (Date_parse ''2025-09-02''), Date 1 (Date_parse ''2025-09-03''),
         Date 2 (Date_parse ''2025-09-04''), Date 3 (Date_parse ''2025-09-10'')] ''2025-09-15'')
   = Inr [(''2025-09-01'', 3), (''2025-09-08'', 1)]"
  by code_simp


section \<open>getMonday and the calendar date of its argument\<close>

lemma Day_within: "0 \<le> tod \<Longrightarrow> tod < msPerDay \<Longrightarrow> Day (n * msPerDay + tod) = n"
  unfolding Day_def msPerDay_def by simp

lemma TimeWithinDay_within:
  "0 \<le> tod \<Longrightarrow> tod < msPerDay \<Longrightarrow> TimeWithinDay (n * msPerDay + tod) = tod"
  unfolding TimeWithinDay_def msPerDay_def by simp

text \<open>
  Claim C8, as amended. \<open>getMonday\<close> takes the UTC calendar date of a Date object and, of
  a string, the text before the first \<^verbatim>\<open>T\<close> as the calendar date; what follows (time
  of day, zone) is discarded. So a Date at any time of day \<open>tod\<close> of day \<open>n\<close>, the date-only
  string of day \<open>n\<close> and any string that starts with that date and a \<^verbatim>\<open>T\<close> (the ISO string
  of the Date among them) have the same Monday.
\<close>

theorem getMonday_discards_time_of_day:
  assumes "\<bar>n\<bar> \<le> 100000000" "0 \<le> tod" "tod < msPerDay"
    and "\<bar>n * msPerDay + tod\<bar> \<le> 8640000000000000"
  shows "getMonday now (DateObj (Some (n * msPerDay + tod))) = getMonday now (Str (iso_date n)) \<and>
         toISOString (Some (n * msPerDay + tod)) = Inr (iso_date n @ ''T'' @ iso_time tod @ ''Z'') \<and>
         getMonday now (Str (iso_date n @ CHR ''T'' # rest)) = getMonday now (Str (iso_date n))"
proof -
  have d: "Day (n * msPerDay + tod) = n" using assms(2,3) by (rule Day_within)
  have w: "TimeWithinDay (n * msPerDay + tod) = tod" using assms(2,3) by (rule TimeWithinDay_within)
  have s1: "split_T_0 (iso_date n) = iso_date n"
    by (rule split_T_0_id) (rule T_notin_iso_date)
  have s2: "split_T_0 (iso_date n @ CHR ''T'' # rest) = iso_date n"
    by (rule split_T_0_iso_date)
  have a: "getMonday now (DateObj (Some (n * msPerDay + tod)))
      = (if - 100000000 \<le> n - (n + 3) mod 7 then Inr (iso_date (n - (n + 3) mod 7)) else Inl RangeError)"
    using getMonday_DateObj [OF assms(4), of now] unfolding d .
  have b: "getMonday now (Str (iso_date n))
      = (if - 100000000 \<le> n - (n + 3) mod 7 then Inr (iso_date (n - (n + 3) mod 7)) else Inl RangeError)"
    by (rule getMonday_Str [OF iso_date_not_Nil s1 assms(1)])
  have c: "getMonday now (Str (iso_date n @ CHR ''T'' # rest))
      = (if - 100000000 \<le> n - (n + 3) mod 7 then Inr (iso_date (n - (n + 3) mod 7)) else Inl RangeError)"
    by (rule getMonday_Str [OF _ s2 assms(1)]) simp
  have t: "toISOString (Some (n * msPerDay + tod)) = Inr (iso_date n @ ''T'' @ iso_time tod @ ''Z'')"
    by (simp add: toISOString_def d w)
  show ?thesis using a b c t by simp
qed

theorem getMonday_discards_time_of_day_witness:
  "iso_date 20346 = ''2025-09-15'' \<and>
   getMonday 0 (DateObj (Some (20346 * msPerDay + 16200000))) = getMonday 0 (Str (iso_date 20346)) \<and>
   toISOString (Some (20346 * msPerDay + 16200000))
     = Inr (iso_date 20346 @ ''T'' @ iso_time 16200000 @ ''Z'') \<and>
   getMonday 0 (Str (iso_date 20346 @ CHR ''T'' # ''04:30:00Z'')) = getMonday 0 (Str (iso_date 20346))"
proof -
  have d: "iso_date 20346 = ''2025-09-15''" by code_simp
  have h: "\<bar>20346 :: int\<bar> \<le> 100000000" "(0 :: int) \<le> 16200000" "16200000 < msPerDay"
    "\<bar>20346 * msPerDay + 16200000\<bar> \<le> 8640000000000000"
    by (simp_all add: msPerDay_def)
  show ?thesis
    using d getMonday_discards_time_of_day [OF h, of 0 "''04:30:00Z''"] by blast
qed

text \<open>
  Claim C8 as stated fails for a timestamp string with a zone offset: the instant
  2025-09-14T23:30:00-05:00 is 2025-09-15T04:30:00Z, a Monday in UTC, and \<open>getMonday\<close> of
  the Date gives 2025-09-15, but \<open>getMonday\<close> of the string gives 2025-09-08, the Monday
  of the date as written.
\<close>

theorem getMonday_zone_offset_counterexample:
  "Date_parse ''2025-09-14T23:30:00-05:00'' = Date_parse ''2025-09-15T04:30:00Z'' \<and>
   toISOString (Date_parse ''2025-09-14T23:30:00-05:00'') = Inr ''2025-09-15T04:30:00.000Z'' \<and>
   getMonday 0 (DateObj (Date_parse ''2025-09-14T23:30:00-05:00'')) = Inr ''2025-09-15'' \<and>
   getMonday 0 (Str ''2025-09-14T23:30:00-05:00'') = Inr ''2025-09-08''"
  by code_simp

section \<open>The loop of main\<close>









lemma split_on_not_Nil: "split_on c s \<noteq> []"
  by (induction s) (auto split: list.splits)

lemma split_on_two: "split_on c s = [a, b] \<Longrightarrow> s = a @ c # b"
proof (induction s arbitrary: a)
  case Nil
  then show ?case by simp
next
  case (Cons x s)
  show ?case
  proof (cases "x = c")
    case True
    then have "a = []" "split_on c s = [b]" using Cons.prems by simp_all
    moreover have "c \<notin> set s \<and> s = b" if "split_on c s = [b]" for s b
      using that
    proof (induction s arbitrary: b)
      case Nil
      then show ?case by simp
    next
      case (Cons y s)
      then show ?case
        using split_on_not_Nil [of c s] by (auto split: if_splits list.splits)
    qed
    ultimately show ?thesis using True by simp
  next
    case False
    then obtain p where "split_on c s = [p, b]" "a = x # p"
      using Cons.prems by (auto split: list.splits)
    then show ?thesis using Cons.IH by simp
  qed
qed

lemma parseRepoString_name: "parseRepoString r = Inr (owner, name) \<Longrightarrow> owner @ ''/'' @ name = r"
proof -
  assume a: "parseRepoString r = Inr (owner, name)"
  then have "split_on CHR ''/'' r = [owner, name]"
    by (auto simp: parseRepoString_def split: list.splits)
  then show ?thesis using split_on_two by fastforce
qed






lemma fetch_first_response:
  "fetchAllStargazers (World (SpawnFailed # rs) rq lg) owner name
     = (Exited 1, World rs (rq @ [StargazersQuery owner name 100 None]) (lg @ [QueryFailed]))"
  "fetchAllStargazers (World (Unparseable # rs) rq lg) owner name
     = (Exited 1, World rs (rq @ [StargazersQuery owner name 100 None]) (lg @ [QueryUnparseable]))"
  "fetchAllStargazers (World (GraphQLErrors # rs) rq lg) owner name
     = (Exited 1, World rs (rq @ [StargazersQuery owner name 100 None]) (lg @ [QueryErrors]))"
  "fetchAllStargazers (World (NoStargazers # rs) rq lg) owner name
     = (Returned [], World rs (rq @ [StargazersQuery owner name 100 None])
                       (lg @ [FetchFailed (owner @ ''/'' @ name)]))"
  unfolding fetchAllStargazers_def
  by (subst fetch_loop.simps, simp add: runGraphQL_def console_error_def truthy_def)+

lemma fetch_after_one_page:
  "fetchAllStargazers (World (StargazersPage edges True cursor # NoStargazers # rs) rq lg) owner name
     = (Returned (push_edges [] edges),
        World rs (rq @ [StargazersQuery owner name 100 None,
                        StargazersQuery owner name 100 (truthy cursor)])
          (lg @ [FetchFailed (owner @ ''/'' @ name)]))"
  "fetchAllStargazers (World (StargazersPage edges True cursor # SpawnFailed # rs) rq lg) owner name
     = (Exited 1,
        World rs (rq @ [StargazersQuery owner name 100 None,
                        StargazersQuery owner name 100 (truthy cursor)])
          (lg @ [QueryFailed]))"
  unfolding fetchAllStargazers_def
  by (subst fetch_loop.simps, subst fetch_loop.simps,
      simp add: runGraphQL_def console_error_def truthy_def)+

text \<open>
  Claim C4, as amended. A \<^verbatim>\<open>gh\<close> call that fails (non-zero status, output that is not
  JSON, a result with errors) is logged and ends the whole run with exit status 1: the
  repositories after it are not fetched. A response without stargazers is logged and ends
  the pagination: the events of the pages before it are returned, and when it is the first
  response the repository is kept with an empty series; the loop goes on. A repository
  string that
  \<open>parseRepoString\<close> rejects is logged and left out, and the loop goes on.
\<close>

theorem fetch_failure_ends_the_run:
  assumes "parseRepoString repoString = Inr (owner, name)" and "parseRepoString bad = Inl e"
  shows "main_loop aggregate finalWeek (World (SpawnFailed # rs) rq lg) (repoString # rest) allData
           = (Exited 1, World rs (rq @ [StargazersQuery owner name 100 None]) (lg @ [QueryFailed])) \<and>
         main_loop aggregate finalWeek (World (Unparseable # rs) rq lg) (repoString # rest) allData
           = (Exited 1, World rs (rq @ [StargazersQuery owner name 100 None]) (lg @ [QueryUnparseable])) \<and>
         main_loop aggregate finalWeek (World (GraphQLErrors # rs) rq lg) (repoString # rest) allData
           = (Exited 1, World rs (rq @ [StargazersQuery owner name 100 None]) (lg @ [QueryErrors])) \<and>
         main_loop (generateCumulativeData now) finalWeek (World (NoStargazers # rs) rq lg)
             (repoString # rest) allData
           = main_loop (generateCumulativeData now) finalWeek
               (World rs (rq @ [StargazersQuery owner name 100 None]) (lg @ [FetchFailed repoString]))
               rest (obj_set allData repoString (Repo repoString [] None)) \<and>
         fetchAllStargazers (World (StargazersPage edges True cursor # NoStargazers # rs) rq lg)
             owner name
           = (Returned (push_edges [] edges),
              World rs (rq @ [StargazersQuery owner name 100 None,
                              StargazersQuery owner name 100 (truthy cursor)])
                (lg @ [FetchFailed repoString])) \<and>
         main_loop aggregate finalWeek w (bad # rest) allData
           = main_loop aggregate finalWeek (console_error (RepoError bad e) w) rest allData"
proof -
  have n: "owner @ ''/'' @ name = repoString" using assms(1) by (rule parseRepoString_name)
  have n': "owner @ CHR ''/'' # name = repoString" using n by simp
  have g: "generateCumulativeData now [] finalWeek = Inr []" by (simp add: generateCumulativeData_def)
  have s: "sort_entries [] = []" by (simp add: sort_entries_def)
  show ?thesis
    by (simp add: assms fetch_first_response fetch_after_one_page(1) g s n' Let_def)
qed

theorem fetch_failure_ends_the_run_witness:
  "main_loop (generateCumulativeData 0) ''2025-09-15''
       (World (SpawnFailed # [StargazersPage [Some ''2025-09-03T10:00:00Z''] False None]) [] [])
       (''c/d'' # [''e/f'']) []
     = (Exited 1, World [StargazersPage [Some ''2025-09-03T10:00:00Z''] False None]
                    ([] @ [StargazersQuery ''c'' ''d'' 100 None]) ([] @ [QueryFailed])) \<and>
   main_loop (generateCumulativeData 0) ''2025-09-15''
       (World (NoStargazers # [StargazersPage [Some ''2025-09-03T10:00:00Z''] False None]) [] [])
       (''c/d'' # [''e/f'']) []
     = (Returned [(''c/d'', Repo ''c/d'' [] None), (''e/f'', Repo ''e/f'' [(''2025-09-01'', 1)] None)],
        World [] [StargazersQuery ''c'' ''d'' 100 None, StargazersQuery ''e'' ''f'' 100 None]
          [FetchFailed ''c/d'']) \<and>
   main_loop (generateCumulativeData 0) ''2025-09-15''
       (World [StargazersPage [Some ''2025-09-03T10:00:00Z''] False None] [] [])
       (''cd'' # [''e/f'']) []
     = (Returned [(''e/f'', Repo ''e/f'' [(''2025-09-01'', 1)] None)],
        World [] [StargazersQuery ''e'' ''f'' 100 None]
          [RepoError ''cd'' (InvalidRepositoryFormat ''cd'')])"
proof -
  have p: "parseRepoString ''c/d'' = Inr (''c'', ''d'')"
    "parseRepoString ''cd'' = Inl (InvalidRepositoryFormat ''cd'')"
    by code_simp+
  have a: "main_loop (generateCumulativeData 0) ''2025-09-15''
       (World [StargazersPage [Some ''2025-09-03T10:00:00Z''] False None]
          ([] @ [StargazersQuery ''c'' ''d'' 100 None]) ([] @ [FetchFailed ''c/d'']))
       [''e/f''] (obj_set [] ''c/d'' (Repo ''c/d'' [] None))
     = (Returned [(''c/d'', Repo ''c/d'' [] None), (''e/f'', Repo ''e/f'' [(''2025-09-01'', 1)] None)],
        World [] [StargazersQuery ''c'' ''d'' 100 None, StargazersQuery ''e'' ''f'' 100 None]
          [FetchFailed ''c/d''])"
    by code_simp
  have b: "main_loop (generateCumulativeData 0) ''2025-09-15''
       (console_error (RepoError ''cd'' (InvalidRepositoryFormat ''cd''))
          (World [StargazersPage [Some ''2025-09-03T10:00:00Z''] False None] [] []))
       [''e/f''] []
     = (Returned [(''e/f'', Repo ''e/f'' [(''2025-09-01'', 1)] None)],
        World [] [StargazersQuery ''e'' ''f'' 100 None]
          [RepoError ''cd'' (InvalidRepositoryFormat ''cd'')])"
    by code_simp
  note t = fetch_failure_ends_the_run [OF p, of "generateCumulativeData 0" "''2025-09-15''"
      "[StargazersPage [Some ''2025-09-03T10:00:00Z''] False None]" "[]" "[]" "[''e/f'']" "[]" 0
      "[]" None
      "World [StargazersPage [Some ''2025-09-03T10:00:00Z''] False None] [] []"]
  show ?thesis using t a b by metis
qed

text \<open>
  Claim C4 as stated fails: when the fetch of the second of three repositories fails, the
  run ends with exit status 1, nothing is written and the third is never fetched.
\<close>

theorem fetch_failure_counterexample:
  "main 0
     (World [StargazersPage [Some ''2025-09-10T10:00:00Z''] False None, SpawnFailed,
             StargazersPage [Some ''2025-09-03T10:00:00Z''] False None] [] [])
     [''a/b,c/d,e/f'', ''out'', ''2025-09-15'']
   = (Exited 1,
      World [StargazersPage [Some ''2025-09-03T10:00:00Z''] False None]
        [StargazersQuery ''a'' ''b'' 100 None, StargazersQuery ''c'' ''d'' 100 None]
        [QueryFailed])"
  by code_simp

end
